theory Spec2Isabelle
  imports Main "HOL-Library.Word" "HOL-Library.Log_Nat"
begin

unbundle bit_operations_syntax

section \<open>The ringserver core (src/src/ringserver.c)\<close>

text \<open>
  The theory embeds the parts of \<^verbatim>\<open>ringserver.c\<close> that decide the properties below:
  the IP matcher \<^verbatim>\<open>MatchIP\<close>, the per-source count \<^verbatim>\<open>ClientIPCount\<close>, the admission
  policy of \<^verbatim>\<open>ListenThread\<close>, the per-client statistics \<^verbatim>\<open>CalcStats\<close>, and, from
  \<^verbatim>\<open>main\<close>, the ring auto-recovery at startup, the shutdown sequence and the client
  pass of the watchdog loop.

  The headers that declare the C types (\<^verbatim>\<open>ringserver.h\<close>, \<^verbatim>\<open>clients.h\<close>, \<^verbatim>\<open>ring.h\<close>) are
  not part of the sources at hand. Counts, offsets and time stamps are therefore
  modelled as integers, and only the fields that the embedded code reads or writes are
  kept in the records. Where the source computes in a local variable that it declares
  itself (the \<^verbatim>\<open>int64_t\<close> unwrapped offsets of \<^verbatim>\<open>CalcStats\<close>), the wrap-around of that type
  is written out. Linked lists (\<^verbatim>\<open>next\<close> pointers, \<^verbatim>\<open>NULL\<close> at the end) are HOL
  lists in link order, the empty list standing for \<^verbatim>\<open>NULL\<close>.
\<close>

subsection \<open>Socket addresses and policy lists\<close>

text \<open>
  \<^verbatim>\<open>sa_family\<close> is an integer tag; only its comparison with \<^verbatim>\<open>AF_INET\<close> and
  \<^verbatim>\<open>AF_INET6\<close> matters, every other value is \<open>AF_OTHER\<close>.
\<close>

datatype sa_family = AF_INET | AF_INET6 | AF_OTHER nat

text \<open>
  \<^verbatim>\<open>MatchIP\<close> reads a \<^verbatim>\<open>struct sockaddr\<close> through two casts: \<open>sin_addr\<close> is
  \<^verbatim>\<open>((struct sockaddr_in *)addr)->sin_addr.s_addr\<close> and \<open>sin6_addr\<close> is
  \<^verbatim>\<open>((struct sockaddr_in6 *)addr)->sin6_addr.s6_addr\<close>, an array of 16 octets. Each is
  dereferenced only under the matching family test.
\<close>

record sockaddr =
  sa_family :: sa_family
  sin_addr :: "32 word"
  sin6_addr :: "8 word list"

text \<open>
  An \<^verbatim>\<open>IPNet\<close> entry. \<^verbatim>\<open>network\<close> and \<^verbatim>\<open>netmask\<close> are unions of an \<^verbatim>\<open>in_addr\<close> and an
  \<^verbatim>\<open>in6_addr\<close>; the code reads the member that belongs to the entry's family.
\<close>

record IPNet =
  family :: sa_family
  network_in :: "32 word"
  netmask_in :: "32 word"
  network_in6 :: "8 word list"
  netmask_in6 :: "8 word list"
  limitstr :: "string option"

text \<open>One conjunct of the IPv6 test of \<^verbatim>\<open>MatchIP\<close>, at octet \<open>i\<close>.\<close>

definition octet_match :: "sockaddr \<Rightarrow> IPNet \<Rightarrow> nat \<Rightarrow> bool" where
  "octet_match addr net i \<longleftrightarrow>
     (sin6_addr addr ! i AND netmask_in6 net ! i) = network_in6 net ! i"

text \<open>The \<^verbatim>\<open>while (net)\<close> loop of \<^verbatim>\<open>MatchIP\<close>.\<close>

fun MatchIP_loop :: "IPNet list \<Rightarrow> sockaddr \<Rightarrow> IPNet option" where
  "MatchIP_loop [] addr = None"
| "MatchIP_loop (net # rest) addr =
     (if sa_family addr = AF_INET \<and> family net = AF_INET then
        (if (sin_addr addr AND netmask_in net) = network_in net then Some net
         else MatchIP_loop rest addr)
      else if sa_family addr = AF_INET6 \<and> family net = AF_INET6 then
        (if octet_match addr net 0 \<and> octet_match addr net 1 \<and>
            octet_match addr net 2 \<and> octet_match addr net 3 \<and>
            octet_match addr net 4 \<and> octet_match addr net 5 \<and>
            octet_match addr net 6 \<and> octet_match addr net 7 \<and>
            octet_match addr net 8 \<and> octet_match addr net 9 \<and>
            octet_match addr net 10 \<and> octet_match addr net 11 \<and>
            octet_match addr net 12 \<and> octet_match addr net 13 \<and>
            octet_match addr net 14 \<and> octet_match addr net 15
         then Some net
         else MatchIP_loop rest addr)
      else MatchIP_loop rest addr)"

text \<open>\<^verbatim>\<open>MatchIP\<close>: \<open>None\<close> is the \<^verbatim>\<open>NULL\<close> (or 0) it returns when nothing matches.\<close>

definition MatchIP :: "IPNet list \<Rightarrow> sockaddr \<Rightarrow> IPNet option" where
  "MatchIP list addr =
     (if list = [] then None
      else if sa_family addr \<noteq> AF_INET \<and> sa_family addr \<noteq> AF_INET6 then None
      else MatchIP_loop list addr)"

text \<open>
  The matching rule in the words of the specification: an IPv4 address matches an IPv4
  entry when \<open>(addr & mask) == network\<close>, an IPv6 address matches an IPv6 entry when
  the octet-wise AND with the mask equals the network in all 16 octets, and nothing else
  matches.
\<close>

definition spec_entry_matches :: "sockaddr \<Rightarrow> IPNet \<Rightarrow> bool" where
  "spec_entry_matches addr net \<longleftrightarrow>
     (sa_family addr = AF_INET \<and> family net = AF_INET \<and>
        (sin_addr addr AND netmask_in net) = network_in net) \<or>
     (sa_family addr = AF_INET6 \<and> family net = AF_INET6 \<and>
        (\<forall>i \<in> {0..<16}. (sin6_addr addr ! i AND netmask_in6 net ! i) = network_in6 net ! i))"

text \<open>
  Modelled from the spec: the builder of a policy list. The code that allocates an
  \<^verbatim>\<open>IPNet\<close> entry and links it into \<^verbatim>\<open>config.matchips\<close>, \<^verbatim>\<open>config.rejectips\<close>, ... (the reader
  of the configuration) is not part of the sources at hand; \<^verbatim>\<open>ringserver.c\<close> only walks
  the lists. The specification has a policy list searched in insertion order, the first
  match winning: an entry is linked behind the entries inserted before it.
\<close>

definition insert_entry :: "IPNet list \<Rightarrow> IPNet \<Rightarrow> IPNet list" where
  "insert_entry list net = list @ [net]"

text \<open>
  Modelled from the spec: a policy list as the absent reader of the configuration leaves
  it, the result of inserting the given entries one after the other, in this order, into
  an empty list.
\<close>

definition policy_list :: "IPNet list \<Rightarrow> IPNet list" where
  "policy_list entries = foldl insert_entry [] entries"

subsection \<open>Double precision arithmetic\<close>

text \<open>
  \<^verbatim>\<open>CalcStats\<close> computes in C \<^verbatim>\<open>double\<close>. A double is modelled by the rational it
  denotes, or one of the three special values. Each operation rounds the exact result to
  the nearest binary64 value, ties to even (53 significant bits, exponents from -1022
  to 1023, gradual underflow, overflow to infinity). A zero stands for both signed
  zeros: the divisors of the embedded code are conversions of integers and a quotient of
  one by a positive constant, so no negative zero reaches a divisor.
\<close>

datatype double = Finite rat | PInf | NInf | NaN

definition pow2 :: "int \<Rightarrow> rat" where
  "pow2 k = (if 0 \<le> k then 2 ^ nat k else 1 / 2 ^ nat (- k))"

text \<open>Rounding to the nearest integer, a tie going to the even neighbour.\<close>

definition round_even :: "rat \<Rightarrow> int" where
  "round_even x =
     (let f = \<lfloor>x\<rfloor>; d = x - of_int f
      in if d < 1 / 2 then f else if 1 / 2 < d then f + 1 else if even f then f else f + 1)"

text \<open>The binary exponent of a positive rational: \<open>2 ^ e \<le> x < 2 ^ (e + 1)\<close>.\<close>

definition ilog2 :: "rat \<Rightarrow> int" where
  "ilog2 x =
     (let (p, q) = quotient_of x; k = bitlen p - bitlen q
      in if pow2 k \<le> x then k else k - 1)"

definition to_double :: "rat \<Rightarrow> double" where
  "to_double x =
     (if x = 0 then Finite 0
      else let e = ilog2 \<bar>x\<bar> in
        if 1024 \<le> e then (if 0 < x then PInf else NInf)
        else let u = pow2 (max e (- 1022) - 52); m = round_even (\<bar>x\<bar> / u) in
          if e = 1023 \<and> m = 2 ^ 53 then (if 0 < x then PInf else NInf)
          else Finite (sgn x * of_int m * u))"

text \<open>The conversion \<^verbatim>\<open>(double)i\<close> of an integer.\<close>

definition d_of_int :: "int \<Rightarrow> double" where
  "d_of_int i = to_double (of_int i)"

fun d_div :: "double \<Rightarrow> double \<Rightarrow> double" where
  "d_div (Finite a) (Finite b) =
     (if b = 0 then (if a = 0 then NaN else if 0 < a then PInf else NInf)
      else to_double (a / b))"
| "d_div NaN y = NaN"
| "d_div x NaN = NaN"
| "d_div (Finite a) y = Finite 0"
| "d_div PInf (Finite b) = (if 0 \<le> b then PInf else NInf)"
| "d_div NInf (Finite b) = (if 0 \<le> b then NInf else PInf)"
| "d_div x y = NaN"

fun d_mul :: "double \<Rightarrow> double \<Rightarrow> double" where
  "d_mul (Finite a) (Finite b) = to_double (a * b)"
| "d_mul NaN y = NaN"
| "d_mul x NaN = NaN"
| "d_mul (Finite a) PInf = (if a = 0 then NaN else if 0 < a then PInf else NInf)"
| "d_mul (Finite a) NInf = (if a = 0 then NaN else if 0 < a then NInf else PInf)"
| "d_mul PInf (Finite b) = (if b = 0 then NaN else if 0 < b then PInf else NInf)"
| "d_mul NInf (Finite b) = (if b = 0 then NaN else if 0 < b then NInf else PInf)"
| "d_mul PInf PInf = PInf"
| "d_mul PInf NInf = NInf"
| "d_mul NInf PInf = NInf"
| "d_mul NInf NInf = PInf"

text \<open>
  The conversion \<^verbatim>\<open>(int)d\<close> to a 32-bit \<^verbatim>\<open>int\<close>: the fraction is discarded, and C leaves
  the result undefined (\<open>None\<close>) when the truncated value does not fit, or the double
  is an infinity or not a number.
\<close>

fun d_to_int :: "double \<Rightarrow> int option" where
  "d_to_int (Finite a) =
     (let t = (if 0 \<le> a then \<lfloor>a\<rfloor> else \<lceil>a\<rceil>)
      in if - (2 ^ 31) \<le> t \<and> t < 2 ^ 31 then Some t else None)"
| "d_to_int PInf = None"
| "d_to_int NInf = None"
| "d_to_int NaN = None"

subsection \<open>Clients, threads and the global records\<close>

datatype td_state = TDS_SPAWNING | TDS_ACTIVE | TDS_CLOSE | TDS_CLOSING | TDS_CLOSED

text \<open>A reader's position in the ring (\<^verbatim>\<open>cinfo->reader\<close>).\<close>

record RingReader =
  pktid :: nat
  pktoffset :: int

text \<open>The fields of \<^verbatim>\<open>RingParams\<close> that \<^verbatim>\<open>CalcStats\<close> reads.\<close>

record RingParams =
  latestoffset :: int
  earliestoffset :: int
  maxoffset :: int

text \<open>
  \<^verbatim>\<open>ClientInfo\<close>. The two-element arrays \<^verbatim>\<open>txpackets[2]\<close>, ... are pairs: the first
  component is element 0 (the current count), the second is element 1 (the history
  value). The counters are unsigned 64-bit integers. \<open>percentlag\<close> is \<open>None\<close> when
  the C program has stored the result of an undefined conversion there. \<open>reader\<close> is
  \<open>None\<close> for a \<^verbatim>\<open>NULL\<close> pointer. \<open>cinfo_addr\<close> and \<open>cinfo_limitstr\<close> are the
  members \<^verbatim>\<open>addr\<close> and \<^verbatim>\<open>limitstr\<close>.
\<close>

record ClientInfo =
  cinfo_addr :: sockaddr
  cinfo_limitstr :: "string option"
  writeperm :: bool
  trusted :: bool
  conntime :: int
  lastxchange :: int
  reader :: "RingReader option"
  percentlag :: "int option"
  ratetime :: int
  txpackets :: "64 word \<times> 64 word"
  txbytes :: "64 word \<times> 64 word"
  rxpackets :: "64 word \<times> 64 word"
  rxbytes :: "64 word \<times> 64 word"
  txpacketrate :: double
  txbyterate :: double
  rxpacketrate :: double
  rxbyterate :: double

text \<open>
  A client thread: the \<^verbatim>\<open>struct cthread\<close> with its \<^verbatim>\<open>thread_data\<close>, whose private
  pointer is the client's \<^verbatim>\<open>ClientInfo\<close>. The \<^verbatim>\<open>prev\<close> and \<^verbatim>\<open>next\<close> links are the
  position in the list \<open>cthreads\<close>.
\<close>

record cthread =
  td_id :: nat
  td_state :: td_state
  td_prvtptr :: ClientInfo

datatype sthread_type = LISTEN_THREAD | MSEEDSCAN_THREAD | UNKNOWN_THREAD int

text \<open>
  A server thread: \<open>lpp_socket\<close> is \<^verbatim>\<open>((ListenPortParams *)params)->socket\<close>, read only
  for a \<^verbatim>\<open>LISTEN_THREAD\<close>; \<open>std\<close> is the state in \<^verbatim>\<open>stp->td\<close>, \<open>None\<close> when the
  pointer is \<^verbatim>\<open>NULL\<close> (no thread is running).
\<close>

record sthread =
  stype :: sthread_type
  lpp_socket :: int
  std :: "td_state option"

record param_s =
  clientcount :: int
  shutdownsig :: int
  sthreads :: "sthread list"
  cthreads :: "cthread list"

record config_s =
  ringdir :: "string option"
  volatilering :: bool
  maxclients :: nat
  maxclientsperip :: nat
  clienttimeout :: nat
  autorecovery :: nat
  limitips :: "IPNet list"
  matchips :: "IPNet list"
  rejectips :: "IPNet list"
  writeips :: "IPNet list"
  trustedips :: "IPNet list"

text \<open>The reserve of connections for addresses with write permission.\<close>

definition RESERVECONNECTIONS :: nat where
  "RESERVECONNECTIONS = 10"

subsection \<open>Counting the connections of one address\<close>

text \<open>
  The test in the loop of \<^verbatim>\<open>ClientIPCount\<close>: same family, and for IPv4 the 4 address
  bytes equal, for IPv6 the 16 address bytes equal (\<^verbatim>\<open>memcmp\<close>).
\<close>

definition same_ip :: "sockaddr \<Rightarrow> sockaddr \<Rightarrow> bool" where
  "same_ip caddr addr \<longleftrightarrow>
     sa_family caddr = sa_family addr \<and>
     (if sa_family addr = AF_INET then sin_addr caddr = sin_addr addr
      else if sa_family addr = AF_INET6 then take 16 (sin6_addr caddr) = take 16 (sin6_addr addr)
      else False)"

fun ClientIPCount_loop :: "cthread list \<Rightarrow> sockaddr \<Rightarrow> nat \<Rightarrow> nat" where
  "ClientIPCount_loop [] addr addrcount = addrcount"
| "ClientIPCount_loop (ctp # rest) addr addrcount =
     ClientIPCount_loop rest addr
       (if same_ip (cinfo_addr (td_prvtptr ctp)) addr then addrcount + 1 else addrcount)"

definition ClientIPCount :: "param_s \<Rightarrow> sockaddr \<Rightarrow> nat" where
  "ClientIPCount param addr = ClientIPCount_loop (cthreads param) addr 0"

subsection \<open>Admission of a connection (ListenThread)\<close>

text \<open>
  What the listener decides for one accepted connection. The four rejections are the
  four \<^verbatim>\<open>close (clientsocket); continue;\<close> exits of the policy block; \<open>Admit_reserve\<close> is
  the branch that logs "Allowing connection in reserve space" and goes on.
\<close>

datatype verdict =
  Reject_nonmatching | Reject_listed | Reject_per_ip | Reject_max_clients
  | Admit_reserve | Admit

text \<open>
  The policy tests in the order of the program text. Each function gives the rejection
  it ends with, if any, and the tests it has carried out: \<open>Step_match\<close> and
  \<open>Step_reject\<close> are the calls of \<^verbatim>\<open>MatchIP\<close> on the match and reject lists,
  \<open>Step_per_ip\<close> is the per-address block, \<open>Step_max_clients\<close> the comparison of the
  client count with the configured maximum.
\<close>

datatype policy_step = Step_match | Step_reject | Step_per_ip | Step_max_clients

definition match_step :: "config_s \<Rightarrow> sockaddr \<Rightarrow> verdict option \<times> policy_step list" where
  "match_step config paddr =
     (if matchips config \<noteq> [] then
        (if MatchIP (matchips config) paddr = None then (Some Reject_nonmatching, [Step_match])
         else (None, [Step_match]))
      else (None, []))"

definition reject_step :: "config_s \<Rightarrow> sockaddr \<Rightarrow> verdict option \<times> policy_step list" where
  "reject_step config paddr =
     (if rejectips config \<noteq> [] then
        (if MatchIP (rejectips config) paddr \<noteq> None then (Some Reject_listed, [Step_reject])
         else (None, [Step_reject]))
      else (None, []))"

definition per_ip_step ::
  "config_s \<Rightarrow> param_s \<Rightarrow> sockaddr \<Rightarrow> verdict option \<times> policy_step list" where
  "per_ip_step config param paddr =
     (if maxclientsperip config \<noteq> 0 then
        (if \<not> (writeips config \<noteq> [] \<and> MatchIP (writeips config) paddr \<noteq> None) then
           (if maxclientsperip config \<le> ClientIPCount param paddr
            then (Some Reject_per_ip, [Step_per_ip])
            else (None, [Step_per_ip]))
         else (None, [Step_per_ip]))
      else (None, []))"

definition max_clients_step ::
  "config_s \<Rightarrow> param_s \<Rightarrow> sockaddr \<Rightarrow> verdict \<times> policy_step list" where
  "max_clients_step config param paddr =
     (if maxclients config \<noteq> 0 \<and> int (maxclients config) \<le> clientcount param then
        (if (writeips config \<noteq> [] \<and> MatchIP (writeips config) paddr \<noteq> None) \<and>
            clientcount param \<le> int (maxclients config + RESERVECONNECTIONS)
         then (Admit_reserve, [Step_max_clients])
         else (Reject_max_clients, [Step_max_clients]))
      else (Admit, if maxclients config \<noteq> 0 then [Step_max_clients] else []))"

definition admission ::
  "config_s \<Rightarrow> param_s \<Rightarrow> sockaddr \<Rightarrow> verdict \<times> policy_step list" where
  "admission config param paddr =
     (case match_step config paddr of
        (Some v, t1) \<Rightarrow> (v, t1)
      | (None, t1) \<Rightarrow>
     (case reject_step config paddr of
        (Some v, t2) \<Rightarrow> (v, t1 @ t2)
      | (None, t2) \<Rightarrow>
     (case per_ip_step config param paddr of
        (Some v, t3) \<Rightarrow> (v, t1 @ t2 @ t3)
      | (None, t3) \<Rightarrow>
     (case max_clients_step config param paddr of
        (v, t4) \<Rightarrow> (v, t1 @ t2 @ t3 @ t4)))))"

definition admitted :: "verdict \<Rightarrow> bool" where
  "admitted v \<longleftrightarrow> v = Admit \<or> v = Admit_reserve"

text \<open>
  The \<^verbatim>\<open>ClientInfo\<close> of an admitted connection: \<^verbatim>\<open>calloc\<close> zeroes it, then the
  listener fills in the address, the stream limit, the write and trusted flags and the
  two time stamps.
\<close>

definition new_ClientInfo :: "config_s \<Rightarrow> sockaddr \<Rightarrow> int \<Rightarrow> ClientInfo" where
  "new_ClientInfo config paddr now =
     \<lparr> cinfo_addr = paddr,
       cinfo_limitstr =
         (if limitips config \<noteq> [] then
            (case MatchIP (limitips config) paddr of Some ipnet \<Rightarrow> limitstr ipnet | None \<Rightarrow> None)
          else None),
       writeperm = (writeips config \<noteq> [] \<and> MatchIP (writeips config) paddr \<noteq> None),
       trusted = (trustedips config \<noteq> [] \<and> MatchIP (trustedips config) paddr \<noteq> None),
       conntime = now,
       lastxchange = now,
       reader = None,
       percentlag = Some 0,
       ratetime = 0,
       txpackets = (0, 0), txbytes = (0, 0), rxpackets = (0, 0), rxbytes = (0, 0),
       txpacketrate = Finite 0, txbyterate = Finite 0,
       rxpacketrate = Finite 0, rxbyterate = Finite 0 \<rparr>"

text \<open>
  One pass of the dispatch loop for a connection that \<^verbatim>\<open>accept\<close> has returned.
  \<open>spawned\<close> tells whether the allocations and \<^verbatim>\<open>pthread_create\<close> succeeded; if one
  fails the socket is closed and the shared state is left as it was. Otherwise the new
  client thread, in state \<open>TDS_SPAWNING\<close>, is put at the head of the list and the
  client count goes up by one.
\<close>

definition ListenThread_connection ::
  "config_s \<Rightarrow> bool \<Rightarrow> nat \<Rightarrow> int \<Rightarrow> sockaddr \<Rightarrow> param_s \<Rightarrow> param_s" where
  "ListenThread_connection config spawned ctid now paddr param =
     (if admitted (fst (admission config param paddr)) \<and> spawned then
        param\<lparr> cthreads :=
                 \<lparr> td_id = ctid, td_state = TDS_SPAWNING,
                   td_prvtptr = new_ClientInfo config paddr now \<rparr> # cthreads param,
               clientcount := clientcount param + 1 \<rparr>
      else param)"

subsection \<open>Per-client statistics (CalcStats)\<close>

text \<open>\<^verbatim>\<open>NSTMODULUS\<close> of libmseed: nanoseconds per second.\<close>

definition NSTMODULUS :: int where
  "NSTMODULUS = 1000000000"

text \<open>
  The value that a computation leaves in an \<^verbatim>\<open>int64_t\<close>: the mathematical result wrapped
  around to the range from \<open>- 2 ^ 63\<close> to \<open>2 ^ 63 - 1\<close>.
\<close>

definition int64 :: "int \<Rightarrow> int" where
  "int64 i = (i + 2 ^ 63) mod 2 ^ 64 - 2 ^ 63"

text \<open>
  \<^verbatim>\<open>CalcStats\<close> for a non-\<^verbatim>\<open>NULL\<close> client. \<open>RINGID_MAXIMUM\<close> is the constant of
  \<^verbatim>\<open>ring.h\<close>, \<open>nsnow\<close> the value of \<^verbatim>\<open>NSnow ()\<close> read on entry. The unwrapped offsets
  are the \<^verbatim>\<open>int64_t\<close> locals of the function, and so are the two differences that it
  divides.
\<close>

definition CalcStats_cinfo :: "nat \<Rightarrow> RingParams \<Rightarrow> int \<Rightarrow> ClientInfo \<Rightarrow> ClientInfo" where
  "CalcStats_cinfo RINGID_MAXIMUM ringparams nsnow cinfo =
     (let lag =
            (case reader cinfo of
               None \<Rightarrow> Some 0
             | Some rd \<Rightarrow>
                 if pktid rd \<le> RINGID_MAXIMUM then
                   (let latestoffset_unwrapped =
                          (if latestoffset ringparams < earliestoffset ringparams
                           then int64 (latestoffset ringparams + maxoffset ringparams)
                           else latestoffset ringparams);
                        readeroffset_unwrapped =
                          (if pktoffset rd < earliestoffset ringparams
                           then int64 (pktoffset rd + maxoffset ringparams)
                           else pktoffset rd)
                    in d_to_int
                         (d_mul
                            (d_div
                               (d_of_int (int64 (latestoffset_unwrapped - readeroffset_unwrapped)))
                               (d_of_int
                                  (int64 (latestoffset_unwrapped - earliestoffset ringparams))))
                            (d_of_int 100)))
                 else Some 0);
          deltasec =
            (if ratetime cinfo = 0 then Finite 1
             else d_div (d_of_int (nsnow - ratetime cinfo)) (d_of_int NSTMODULUS));
          c1 = cinfo\<lparr> percentlag := lag \<rparr>;
          c2 = (if 0 < fst (txpackets c1) then
                  c1\<lparr> txpacketrate :=
                        d_div (d_of_int (uint (fst (txpackets c1) - snd (txpackets c1)))) deltasec,
                      txbyterate :=
                        d_div (d_of_int (uint (fst (txbytes c1) - snd (txbytes c1)))) deltasec,
                      txpackets := (fst (txpackets c1), fst (txpackets c1)),
                      txbytes := (fst (txbytes c1), fst (txbytes c1)) \<rparr>
                else c1);
          c3 = (if 0 < fst (rxpackets c2) then
                  c2\<lparr> rxpacketrate :=
                        d_div (d_of_int (uint (fst (rxpackets c2) - snd (rxpackets c2)))) deltasec,
                      rxbyterate :=
                        d_div (d_of_int (uint (fst (rxbytes c2) - snd (rxbytes c2)))) deltasec,
                      rxpackets := (fst (rxpackets c2), fst (rxpackets c2)),
                      rxbytes := (fst (rxbytes c2), fst (rxbytes c2)) \<rparr>
                else c2)
      in c3\<lparr> ratetime := nsnow \<rparr>)"

text \<open>
  \<^verbatim>\<open>CalcStats\<close> itself: -1 and nothing done for a \<^verbatim>\<open>NULL\<close> pointer, 0 otherwise.
\<close>

definition CalcStats ::
  "nat \<Rightarrow> RingParams \<Rightarrow> int \<Rightarrow> ClientInfo option \<Rightarrow> int \<times> ClientInfo option" where
  "CalcStats RINGID_MAXIMUM ringparams nsnow cinfo =
     (case cinfo of
        None \<Rightarrow> (- 1, None)
      | Some c \<Rightarrow> (0, Some (CalcStats_cinfo RINGID_MAXIMUM ringparams nsnow c)))"

text \<open>
  The percent lag in the words of the specification: the latest offset and the reader
  offset are unwrapped by adding the ring's max offset to a value that is less than the
  earliest offset, and the lag is \<open>100 * (latest - reader) / (latest - earliest)\<close> on the
  unwrapped values. The quotient is the exact one, a rational number.
\<close>

definition spec_unwrap :: "RingParams \<Rightarrow> int \<Rightarrow> int" where
  "spec_unwrap ringparams v =
     (if v < earliestoffset ringparams then v + maxoffset ringparams else v)"

definition spec_percentlag :: "RingParams \<Rightarrow> int \<Rightarrow> rat" where
  "spec_percentlag ringparams readeroffset =
     100 * of_int (spec_unwrap ringparams (latestoffset ringparams) -
                   spec_unwrap ringparams readeroffset) /
       of_int (spec_unwrap ringparams (latestoffset ringparams) - earliestoffset ringparams)"

text \<open>The place of a policy test in the program text.\<close>

fun step_rank :: "policy_step \<Rightarrow> nat" where
  "step_rank Step_match = 0"
| "step_rank Step_reject = 1"
| "step_rank Step_per_ip = 2"
| "step_rank Step_max_clients = 3"

subsection \<open>The watchdog loop of main\<close>

text \<open>
  What one pass of the loop takes from outside the embedded code: the constant
  \<^verbatim>\<open>RINGID_MAXIMUM\<close>, the ring parameters, the clock value that \<^verbatim>\<open>CalcStats\<close> reads for
  the client thread with a given id, whether transfer logs are due, the effect of
  \<^verbatim>\<open>WriteTLog\<close> (not part of the sources at hand) on a client, and whether a server
  thread can be started.
\<close>

record watch_env =
  env_ringid_maximum :: nat
  env_ringparams :: RingParams
  env_nsnow :: "nat \<Rightarrow> int"
  env_tlogwrite :: bool
  env_WriteTLog :: "ClientInfo \<Rightarrow> ClientInfo"
  env_spawn_ok :: "sthread \<Rightarrow> bool"

text \<open>
  The start of the shutdown sequence, entered when \<^verbatim>\<open>param.shutdownsig == 1\<close>: for a
  server thread and for a client thread.
\<close>

definition shutdown_sthread :: "sthread \<Rightarrow> sthread" where
  "shutdown_sthread stp =
     (if stype stp = LISTEN_THREAD then
        (if 0 < lpp_socket stp then stp\<lparr> lpp_socket := - 1 \<rparr> else stp)
      else
        (case std stp of
           None \<Rightarrow> stp
         | Some st \<Rightarrow>
             if st \<noteq> TDS_CLOSING \<and> st \<noteq> TDS_CLOSED then stp\<lparr> std := Some TDS_CLOSE \<rparr>
             else stp))"

definition shutdown_cthread :: "cthread \<Rightarrow> cthread" where
  "shutdown_cthread ctp =
     (if td_state ctp \<noteq> TDS_CLOSING \<and> td_state ctp \<noteq> TDS_CLOSED
      then ctp\<lparr> td_state := TDS_CLOSE \<rparr> else ctp)"

text \<open>
  The state of the loop is \<^verbatim>\<open>param\<close> and the sleep time \<^verbatim>\<open>timereq.tv_nsec\<close>.
\<close>

definition shutdown_sequence :: "param_s \<times> int \<Rightarrow> param_s \<times> int" where
  "shutdown_sequence st =
     (case st of (param, tv_nsec) \<Rightarrow>
        if shutdownsig param = 1 then
          (param\<lparr> shutdownsig := 2,
                  sthreads := map shutdown_sthread (sthreads param),
                  cthreads := map shutdown_cthread (cthreads param) \<rparr>,
           100000000)
        else (param, tv_nsec))"

text \<open>The safety valve: \<open>True\<close> is the \<^verbatim>\<open>break\<close> out of the loop.\<close>

definition safety_valve :: "param_s \<Rightarrow> bool \<times> param_s" where
  "safety_valve param =
     (if 1 < shutdownsig param then
        (if 100 \<le> shutdownsig param then (True, param)
         else (False, param\<lparr> shutdownsig := shutdownsig param + 1 \<rparr>))
      else (False, param))"

text \<open>
  The pass over the server threads: a \<open>TDS_CLOSED\<close> thread is joined and dropped, and
  a missing one is started again unless a shutdown is under way.
\<close>

definition server_update :: "watch_env \<Rightarrow> int \<Rightarrow> sthread \<Rightarrow> sthread" where
  "server_update env sig stp =
     (if stype stp = LISTEN_THREAD \<or> stype stp = MSEEDSCAN_THREAD then
        (let stp1 = (if std stp = Some TDS_CLOSED then stp\<lparr> std := None \<rparr> else stp)
         in if std stp1 = None \<and> sig = 0 then
              (if env_spawn_ok env stp1 then stp1\<lparr> std := Some TDS_SPAWNING \<rparr> else stp1)
            else stp1)
      else stp)"

text \<open>Closing an idle client (the test at the end of the client loop).\<close>

definition idle_close :: "config_s \<Rightarrow> int \<Rightarrow> cthread \<Rightarrow> cthread" where
  "idle_close config hpcurtime ctp =
     (if clienttimeout config \<noteq> 0 \<and>
         int (clienttimeout config) * NSTMODULUS < hpcurtime - lastxchange (td_prvtptr ctp)
      then
        (if td_state ctp \<noteq> TDS_CLOSE \<and> td_state ctp \<noteq> TDS_CLOSING \<and>
            td_state ctp \<noteq> TDS_CLOSED
         then ctp\<lparr> td_state := TDS_CLOSE \<rparr> else ctp)
      else ctp)"

text \<open>
  The \<^verbatim>\<open>else\<close> branch of the client loop, for a thread that is not \<open>TDS_CLOSED\<close>:
  statistics, the transfer log if due, the idle test. (The sums of the rates over all
  clients, which the loop also forms, are left out.)
\<close>

definition client_update :: "config_s \<Rightarrow> watch_env \<Rightarrow> int \<Rightarrow> cthread \<Rightarrow> cthread" where
  "client_update config env hpcurtime ctp =
     (let ci = CalcStats_cinfo (env_ringid_maximum env) (env_ringparams env)
                 (env_nsnow env (td_id ctp)) (td_prvtptr ctp);
          ci' = (if env_tlogwrite env then env_WriteTLog env ci else ci)
      in idle_close config hpcurtime (ctp\<lparr> td_prvtptr := ci' \<rparr>))"

text \<open>
  The client loop: a \<open>TDS_CLOSED\<close> thread is unlinked, joined and freed, and the
  client count is decremented if it is positive; any other thread is updated. The
  result is the remaining list and the new client count.
\<close>

fun client_pass_loop ::
  "config_s \<Rightarrow> watch_env \<Rightarrow> int \<Rightarrow> cthread list \<Rightarrow> int \<Rightarrow> cthread list \<times> int" where
  "client_pass_loop config env hpcurtime [] cc = ([], cc)"
| "client_pass_loop config env hpcurtime (ctp # rest) cc =
     (if td_state ctp = TDS_CLOSED then
        client_pass_loop config env hpcurtime rest (if 0 < cc then cc - 1 else cc)
      else
        (case client_pass_loop config env hpcurtime rest cc of
           (rest', cc') \<Rightarrow> (client_update config env hpcurtime ctp # rest', cc')))"

definition client_pass :: "config_s \<Rightarrow> watch_env \<Rightarrow> int \<Rightarrow> param_s \<Rightarrow> param_s" where
  "client_pass config env hpcurtime param =
     (case client_pass_loop config env hpcurtime (cthreads param) (clientcount param) of
        (cs, cc) \<Rightarrow> param\<lparr> cthreads := cs, clientcount := cc \<rparr>)"

text \<open>
  One pass of the watchdog loop, as far as the threads are concerned (the transfer log
  window and the re-reading of the configuration file are left out). The first
  component tells whether the loop is left, by the safety valve or because the shutdown
  is complete. \<^verbatim>\<open>servercount\<close> counts the server threads that had thread data when the
  pass over them began.
\<close>

definition watchdog_tick ::
  "config_s \<Rightarrow> watch_env \<Rightarrow> int \<Rightarrow> param_s \<times> int \<Rightarrow> bool \<times> param_s \<times> int" where
  "watchdog_tick config env hpcurtime st =
     (case shutdown_sequence st of (p1, tv_nsec) \<Rightarrow>
        (case safety_valve p1 of
           (True, p2) \<Rightarrow> (True, p2, tv_nsec)
         | (False, p2) \<Rightarrow>
             (let servercount = length (filter (\<lambda>stp. std stp \<noteq> None) (sthreads p2));
                  p3 = p2\<lparr> sthreads := map (server_update env (shutdownsig p2)) (sthreads p2) \<rparr>;
                  p4 = client_pass config env hpcurtime p3
              in (2 \<le> shutdownsig p4 \<and> clientcount p4 = 0 \<and> servercount = 0, p4, tv_nsec))))"

text \<open>
  The loop, with fuel. Pass \<open>k\<close> runs with the environment \<open>env k\<close> at the time
  \<open>clock k\<close>; between pass \<open>k\<close> and the next the other threads change the shared
  state by \<open>world k\<close>. The result is the number of the pass in which the loop is left,
  with the state then, or \<open>None\<close> when the fuel runs out first.
\<close>

fun watchdog_loop ::
  "nat \<Rightarrow> config_s \<Rightarrow> (nat \<Rightarrow> watch_env) \<Rightarrow> (nat \<Rightarrow> int) \<Rightarrow> (nat \<Rightarrow> param_s \<Rightarrow> param_s) \<Rightarrow>
   nat \<Rightarrow> param_s \<times> int \<Rightarrow> (nat \<times> param_s \<times> int) option" where
  "watchdog_loop 0 config env clock world k st = None"
| "watchdog_loop (Suc fuel) config env clock world k st =
     (case watchdog_tick config (env k) (clock k) st of
        (True, st') \<Rightarrow> Some (k, st')
      | (False, p, tv_nsec) \<Rightarrow>
          watchdog_loop fuel config env clock world (Suc k) (world k p, tv_nsec))"

subsection \<open>The server as a sequence of events\<close>

text \<open>
  The shared state changes by three kinds of steps: a listener handles an accepted
  connection; the client threads change their own thread data (state, counters, time of
  last exchange); the watchdog makes its pass over the clients.
\<close>

datatype event =
  Connection bool nat int sockaddr
  | Workers "cthread \<Rightarrow> cthread"
  | Client_pass watch_env int

fun server_event :: "config_s \<Rightarrow> param_s \<Rightarrow> event \<Rightarrow> param_s" where
  "server_event config param (Connection spawned ctid now paddr) =
     ListenThread_connection config spawned ctid now paddr param"
| "server_event config param (Workers f) = param\<lparr> cthreads := map f (cthreads param) \<rparr>"
| "server_event config param (Client_pass env hpcurtime) =
     client_pass config env hpcurtime param"

definition run_events :: "config_s \<Rightarrow> param_s \<Rightarrow> event list \<Rightarrow> param_s" where
  "run_events config param evs = foldl (server_event config) param evs"

subsection \<open>Ring initialisation and auto recovery (main)\<close>

text \<open>
  What the start of \<^verbatim>\<open>main\<close> takes from outside: the value of the first call of
  \<^verbatim>\<open>RingInitialize\<close> and the descriptor it leaves in \<^verbatim>\<open>ringfd\<close>; for \<^verbatim>\<open>rename\<close> and
  \<^verbatim>\<open>unlink\<close> whether the call counts as failed, that is, returns non-zero with
  \<^verbatim>\<open>errno\<close> other than \<^verbatim>\<open>ENOENT\<close>; the value of the second call of \<^verbatim>\<open>RingInitialize\<close>;
  and the value of \<^verbatim>\<open>LoadBufferV1\<close>.
\<close>

record startup_env =
  ringinit_first :: int
  ringfd_first :: int
  rename_fails :: "string \<Rightarrow> string \<Rightarrow> bool"
  unlink_fails :: "string \<Rightarrow> bool"
  ringinit_second :: int
  loaded_packets :: int

text \<open>The calls that \<^verbatim>\<open>main\<close> makes, in order, and how the start ends.\<close>

datatype startup_event =
  Ev_RingInitialize
  | Ev_close_ringfd
  | Ev_rename string string
  | Ev_unlink string
  | Ev_LoadBufferV1 string

datatype startup_result = Exit int | Ring_ready

text \<open>The decimal digits of a number, as \<^verbatim>\<open>%d\<close> prints a positive \<^verbatim>\<open>int\<close>.\<close>

function decimal :: "nat \<Rightarrow> string" where
  "decimal n =
     (if n < 10 then [''0123456789'' ! n]
      else decimal (n div 10) @ [''0123456789'' ! (n mod 10)])"
  by pat_completeness auto
termination
  by (relation "measure id") auto

declare decimal.simps [simp del]

text \<open>
  The two file names, \<^verbatim>\<open><ringdir>/packetbuf\<close> and \<^verbatim>\<open><ringdir>/streamidx\<close>; they stay
  empty for a volatile ring. (The names are taken to fit the \<^verbatim>\<open>PATH_MAX\<close> buffers.)
\<close>

definition ringfilename :: "config_s \<Rightarrow> string" where
  "ringfilename config =
     (if \<not> volatilering config then
        (case ringdir config of Some d \<Rightarrow> d @ ''/packetbuf'' | None \<Rightarrow> [])
      else [])"

definition streamfilename :: "config_s \<Rightarrow> string" where
  "streamfilename config =
     (if \<not> volatilering config then
        (case ringdir config of Some d \<Rightarrow> d @ ''/streamidx'' | None \<Rightarrow> [])
      else [])"

text \<open>
  The second call of \<^verbatim>\<open>RingInitialize\<close> and the conversion of an old version from the
  backup. \<open>evs\<close> are the calls made so far.
\<close>

definition ring_reinit ::
  "config_s \<Rightarrow> startup_env \<Rightarrow> startup_event list \<Rightarrow> string \<Rightarrow> string \<Rightarrow> nat \<Rightarrow>
   startup_result \<times> startup_event list" where
  "ring_reinit config env evs ringfile_backup streamfile_backup convert_version =
     (if ringinit_second env \<noteq> 0 then (Exit 1, evs @ [Ev_RingInitialize])
      else if autorecovery config = 1 \<and> 0 < convert_version then
        (if convert_version = 1 then
           (if 0 \<le> loaded_packets env then
              (if unlink_fails env ringfile_backup then
                 (Exit 1, evs @ [Ev_RingInitialize, Ev_LoadBufferV1 ringfile_backup,
                                 Ev_unlink ringfile_backup])
               else if unlink_fails env streamfile_backup then
                 (Exit 1, evs @ [Ev_RingInitialize, Ev_LoadBufferV1 ringfile_backup,
                                 Ev_unlink ringfile_backup, Ev_unlink streamfile_backup])
               else
                 (Ring_ready, evs @ [Ev_RingInitialize, Ev_LoadBufferV1 ringfile_backup,
                                     Ev_unlink ringfile_backup, Ev_unlink streamfile_backup]))
            else (Ring_ready, evs @ [Ev_RingInitialize, Ev_LoadBufferV1 ringfile_backup]))
         else (Exit 1, evs @ [Ev_RingInitialize]))
      else (Ring_ready, evs @ [Ev_RingInitialize]))"

text \<open>
  The initialisation of the ring in \<^verbatim>\<open>main\<close>. \<^verbatim>\<open>convert_version\<close> is a 16-bit unsigned
  variable that receives the value of \<^verbatim>\<open>RingInitialize\<close>.
\<close>

definition main_ring_init ::
  "config_s \<Rightarrow> startup_env \<Rightarrow> startup_result \<times> startup_event list" where
  "main_ring_init config env =
     (if ringdir config \<noteq> None \<or> volatilering config then
        (let ringinit = ringinit_first env in
         if ringinit = 0 then (Ring_ready, [Ev_RingInitialize])
         else if ringinit = - 2 \<or> autorecovery config = 0 then (Exit 1, [Ev_RingInitialize])
         else
           (let evs = Ev_RingInitialize # (if 0 < ringfd_first env then [Ev_close_ringfd] else [])
            in
            if autorecovery config = 1 \<and> (ringinit = - 1 \<or> 0 < ringinit) then
              (let suffix = (if ringinit = - 1 then ''.corrupt''
                             else ''.version'' @ decimal (nat ringinit));
                   ringfile_backup = ringfilename config @ suffix;
                   streamfile_backup = streamfilename config @ suffix;
                   convert_version = (if ringinit = - 1 then 0 else nat (ringinit mod 65536))
               in
               if rename_fails env (ringfilename config) ringfile_backup then
                 (Exit 1, evs @ [Ev_rename (ringfilename config) ringfile_backup])
               else if rename_fails env (streamfilename config) streamfile_backup then
                 (Exit 1, evs @ [Ev_rename (ringfilename config) ringfile_backup,
                                 Ev_rename (streamfilename config) streamfile_backup])
               else
                 ring_reinit config env
                   (evs @ [Ev_rename (ringfilename config) ringfile_backup,
                           Ev_rename (streamfilename config) streamfile_backup])
                   ringfile_backup streamfile_backup convert_version)
            else if autorecovery config = 2 then
              (if unlink_fails env (ringfilename config) then
                 (Exit 1, evs @ [Ev_unlink (ringfilename config)])
               else if unlink_fails env (streamfilename config) then
                 (Exit 1, evs @ [Ev_unlink (ringfilename config),
                                 Ev_unlink (streamfilename config)])
               else
                 ring_reinit config env
                   (evs @ [Ev_unlink (ringfilename config), Ev_unlink (streamfilename config)])
                   [] [] 0)
            else (Exit 1, evs)))
      else (Exit 1, []))"

subsection \<open>Example values\<close>

text \<open>
  Addresses and policy entries used to run the definitions: the networks 10.0.0.0/8,
  10.0.0.5/32 and 2001:db8::/32, and the addresses 10.0.0.1, 10.0.0.5, 192.0.2.1 and
  2001:db8::1. An IPv4 address is written as the 32-bit value of its four octets.
\<close>

definition zero_in6 :: "8 word list" where
  "zero_in6 = [0, 0, 0, 0, 0, 0, 0, 0, 0, 0, 0, 0, 0, 0, 0, 0]"

definition ipv4_net :: "32 word \<Rightarrow> 32 word \<Rightarrow> IPNet" where
  "ipv4_net network netmask =
     \<lparr> family = AF_INET, network_in = network, netmask_in = netmask,
       network_in6 = zero_in6, netmask_in6 = zero_in6, limitstr = None \<rparr>"

definition ipv4_addr :: "32 word \<Rightarrow> sockaddr" where
  "ipv4_addr a = \<lparr> sa_family = AF_INET, sin_addr = a, sin6_addr = zero_in6 \<rparr>"

definition net_10_8 :: IPNet where
  "net_10_8 = ipv4_net 0x0A000000 0xFF000000"

definition net_10_0_0_5 :: IPNet where
  "net_10_0_0_5 = ipv4_net 0x0A000005 0xFFFFFFFF"

definition net_2001_db8 :: IPNet where
  "net_2001_db8 =
     \<lparr> family = AF_INET6, network_in = 0, netmask_in = 0,
       network_in6 = [0x20, 0x01, 0x0d, 0xb8, 0, 0, 0, 0, 0, 0, 0, 0, 0, 0, 0, 0],
       netmask_in6 = [0xff, 0xff, 0xff, 0xff, 0, 0, 0, 0, 0, 0, 0, 0, 0, 0, 0, 0],
       limitstr = None \<rparr>"

definition addr_10_0_0_1 :: sockaddr where
  "addr_10_0_0_1 = ipv4_addr 0x0A000001"

definition addr_10_0_0_5 :: sockaddr where
  "addr_10_0_0_5 = ipv4_addr 0x0A000005"

definition addr_192_0_2_1 :: sockaddr where
  "addr_192_0_2_1 = ipv4_addr 0xC0000201"

definition addr_2001_db8_1 :: sockaddr where
  "addr_2001_db8_1 =
     \<lparr> sa_family = AF_INET6, sin_addr = 0,
       sin6_addr = [0x20, 0x01, 0x0d, 0xb8, 0, 0, 0, 0, 0, 0, 0, 0, 0, 0, 0, 1] \<rparr>"

definition addr_unix :: sockaddr where
  "addr_unix = \<lparr> sa_family = AF_OTHER 1, sin_addr = 0, sin6_addr = zero_in6 \<rparr>"

text \<open>
  Configurations: no limits at all; a match list 10.0.0.0/8 with a reject list
  10.0.0.5/32; a limit of two connections per address with write permission for
  10.0.0.5; at most five clients with write permission for 10.0.0.0/8.
\<close>

definition config_open :: config_s where
  "config_open =
     \<lparr> ringdir = Some ''ring'', volatilering = False,
       maxclients = 0, maxclientsperip = 0, clienttimeout = 0, autorecovery = 1,
       limitips = [], matchips = [], rejectips = [], writeips = [], trustedips = [] \<rparr>"

definition config_match_reject :: config_s where
  "config_match_reject = config_open\<lparr> matchips := [net_10_8], rejectips := [net_10_0_0_5] \<rparr>"

definition config_per_ip :: config_s where
  "config_per_ip = config_open\<lparr> maxclientsperip := 2, writeips := [net_10_0_0_5] \<rparr>"

definition config_max5 :: config_s where
  "config_max5 = config_open\<lparr> maxclients := 5, writeips := [net_10_8] \<rparr>"

text \<open>The state at startup, and a running client of a given address.\<close>

definition param_start :: param_s where
  "param_start = \<lparr> clientcount = 0, shutdownsig = 0, sthreads = [], cthreads = [] \<rparr>"

definition client_at :: "nat \<Rightarrow> sockaddr \<Rightarrow> cthread" where
  "client_at n paddr =
     \<lparr> td_id = n, td_state = TDS_ACTIVE, td_prvtptr = new_ClientInfo config_open paddr 0 \<rparr>"

definition param_four :: param_s where
  "param_four =
     param_start\<lparr> clientcount := 4,
       cthreads := [client_at 4 addr_192_0_2_1, client_at 3 addr_10_0_0_5,
                    client_at 2 addr_192_0_2_1, client_at 1 addr_10_0_0_5] \<rparr>"

text \<open>
  Sixteen connections, each with its thread started: five from 192.0.2.1, then eleven
  from 10.0.0.1.
\<close>

definition connections_16 :: "event list" where
  "connections_16 =
     replicate 5 (Connection True 0 0 addr_192_0_2_1) @
     replicate 11 (Connection True 0 0 addr_10_0_0_1)"

text \<open>An environment for the watchdog: an empty ring, a clock at 0, no transfer log.\<close>

definition env_quiet :: watch_env where
  "env_quiet =
     \<lparr> env_ringid_maximum = 1000,
       env_ringparams = \<lparr> latestoffset = 0, earliestoffset = 0, maxoffset = 0 \<rparr>,
       env_nsnow = (\<lambda>i. 0), env_tlogwrite = False, env_WriteTLog = (\<lambda>c. c),
       env_spawn_ok = (\<lambda>stp. True) \<rparr>"

text \<open>A client thread that has closed, and the step by which every client thread closes.\<close>

definition client_closed :: cthread where
  "client_closed = (client_at 7 addr_10_0_0_1)\<lparr> td_state := TDS_CLOSED \<rparr>"

definition all_close :: "cthread \<Rightarrow> cthread" where
  "all_close ctp = ctp\<lparr> td_state := TDS_CLOSED \<rparr>"

text \<open>
  A client timeout of two seconds; two running clients, the first last heard of at time
  0 and the second two seconds later (times in nanoseconds).
\<close>

definition config_timeout :: config_s where
  "config_timeout = config_open\<lparr> clienttimeout := 2 \<rparr>"

definition client_heard :: "nat \<Rightarrow> int \<Rightarrow> cthread" where
  "client_heard n t =
     \<lparr> td_id = n, td_state = TDS_ACTIVE,
       td_prvtptr = (new_ClientInfo config_open addr_10_0_0_1 0)\<lparr> lastxchange := t \<rparr> \<rparr>"

definition param_two :: param_s where
  "param_two =
     param_start\<lparr> clientcount := 2,
       cthreads := [client_heard 2 0, client_heard 3 2000000000] \<rparr>"

text \<open>
  A shutdown has been requested while a listener on socket 5, a scanner and one client
  are running.
\<close>

definition param_shutdown :: param_s where
  "param_shutdown =
     \<lparr> clientcount = 1, shutdownsig = 1,
       sthreads = [\<lparr> stype = LISTEN_THREAD, lpp_socket = 5, std = Some TDS_ACTIVE \<rparr>,
                   \<lparr> stype = MSEEDSCAN_THREAD, lpp_socket = 0, std = Some TDS_ACTIVE \<rparr>],
       cthreads = [client_heard 2 0] \<rparr>"

text \<open>
  The same threads while the shutdown is under way and nothing makes progress: the
  listener's socket is closed, the scanner and the client have been asked to close and
  never do. \<open>sig\<close> is the value of \<^verbatim>\<open>param.shutdownsig\<close>.
\<close>

definition param_stuck :: "int \<Rightarrow> param_s" where
  "param_stuck sig =
     \<lparr> clientcount = 1, shutdownsig = sig,
       sthreads = [\<lparr> stype = LISTEN_THREAD, lpp_socket = - 1, std = Some TDS_ACTIVE \<rparr>,
                   \<lparr> stype = MSEEDSCAN_THREAD, lpp_socket = 0, std = Some TDS_CLOSE \<rparr>],
       cthreads = [(client_heard 2 0)\<lparr> td_state := TDS_CLOSE \<rparr>] \<rparr>"

text \<open>
  A start at which every file operation succeeds, the second initialisation succeeds
  and the loader reports 42 packets; \<open>r\<close> is the value of the first initialisation.
\<close>

definition env_start :: "int \<Rightarrow> startup_env" where
  "env_start r =
     \<lparr> ringinit_first = r, ringfd_first = 0,
       rename_fails = (\<lambda>a b. False), unlink_fails = (\<lambda>a. False),
       ringinit_second = 0, loaded_packets = 42 \<rparr>"

definition config_delete :: config_s where
  "config_delete = config_open\<lparr> autorecovery := 2 \<rparr>"

text \<open>
  A ring whose packets lie between the offsets 100 and 500, a ring that has wrapped (the
  latest packet at offset 50, before the earliest at 100), a ring that holds a single
  packet, a ring whose packets lie between the offsets 0 and 100, and a client whose
  reader is at a given offset.
\<close>

definition ring_hundred :: RingParams where
  "ring_hundred = \<lparr> latestoffset = 100, earliestoffset = 0, maxoffset = 1000 \<rparr>"

definition ring_plain :: RingParams where
  "ring_plain = \<lparr> latestoffset = 500, earliestoffset = 100, maxoffset = 1000 \<rparr>"

definition ring_wrapped :: RingParams where
  "ring_wrapped = \<lparr> latestoffset = 50, earliestoffset = 100, maxoffset = 1000 \<rparr>"

definition ring_single :: RingParams where
  "ring_single = \<lparr> latestoffset = 4096, earliestoffset = 4096, maxoffset = 1048576 \<rparr>"

definition client_reading :: "int \<Rightarrow> ClientInfo" where
  "client_reading off =
     (new_ClientInfo config_open addr_10_0_0_1 0)\<lparr> reader := Some \<lparr> pktid = 7, pktoffset = off \<rparr> \<rparr>"

text \<open>
  A client as \<^verbatim>\<open>ListenThread\<close> creates it, after its thread has sent 10 packets (5120
  bytes) and before the statistics are taken for the first time.
\<close>

definition client_sent_ten :: ClientInfo where
  "client_sent_ten =
     (new_ClientInfo config_open addr_10_0_0_1 1000000000)\<lparr> txpackets := (10, 0), txbytes := (5120, 0) \<rparr>"

lemmas example_defs =
  zero_in6_def ipv4_net_def ipv4_addr_def net_10_8_def net_10_0_0_5_def net_2001_db8_def
  addr_10_0_0_1_def addr_10_0_0_5_def addr_192_0_2_1_def addr_2001_db8_1_def addr_unix_def
  config_open_def config_match_reject_def config_per_ip_def config_max5_def
  param_start_def client_at_def param_four_def client_closed_def all_close_def
  config_timeout_def client_heard_def param_two_def param_shutdown_def param_stuck_def
  env_start_def config_delete_def
  ring_plain_def ring_wrapped_def ring_single_def ring_hundred_def client_reading_def
  client_sent_ten_def

subsection \<open>Facts about the IP matcher\<close>

lemma upt_16: "{0..<16::nat} = {0, 1, 2, 3, 4, 5, 6, 7, 8, 9, 10, 11, 12, 13, 14, 15}"
  by (auto, arith)

lemma octets_all:
  "(\<forall>i \<in> {0..<16}. octet_match addr net i) \<longleftrightarrow>
     (octet_match addr net 0 \<and> octet_match addr net 1 \<and>
      octet_match addr net 2 \<and> octet_match addr net 3 \<and>
      octet_match addr net 4 \<and> octet_match addr net 5 \<and>
      octet_match addr net 6 \<and> octet_match addr net 7 \<and>
      octet_match addr net 8 \<and> octet_match addr net 9 \<and>
      octet_match addr net 10 \<and> octet_match addr net 11 \<and>
      octet_match addr net 12 \<and> octet_match addr net 13 \<and>
      octet_match addr net 14 \<and> octet_match addr net 15)"
  unfolding upt_16 by simp

lemma spec_entry_matches_octets:
  "spec_entry_matches addr net \<longleftrightarrow>
     (sa_family addr = AF_INET \<and> family net = AF_INET \<and>
        (sin_addr addr AND netmask_in net) = network_in net) \<or>
     (sa_family addr = AF_INET6 \<and> family net = AF_INET6 \<and>
        (\<forall>i \<in> {0..<16}. octet_match addr net i))"
  by (simp add: spec_entry_matches_def octet_match_def)

lemma MatchIP_loop_find:
  "MatchIP_loop list addr = find (spec_entry_matches addr) list"
proof (induction list)
  case Nil
  show ?case by simp
next
  case (Cons net rest)
  have m: "spec_entry_matches addr net \<longleftrightarrow>
     (sa_family addr = AF_INET \<and> family net = AF_INET \<and>
        (sin_addr addr AND netmask_in net) = network_in net) \<or>
     (sa_family addr = AF_INET6 \<and> family net = AF_INET6 \<and>
      octet_match addr net 0 \<and> octet_match addr net 1 \<and>
      octet_match addr net 2 \<and> octet_match addr net 3 \<and>
      octet_match addr net 4 \<and> octet_match addr net 5 \<and>
      octet_match addr net 6 \<and> octet_match addr net 7 \<and>
      octet_match addr net 8 \<and> octet_match addr net 9 \<and>
      octet_match addr net 10 \<and> octet_match addr net 11 \<and>
      octet_match addr net 12 \<and> octet_match addr net 13 \<and>
      octet_match addr net 14 \<and> octet_match addr net 15)"
    unfolding spec_entry_matches_octets octets_all by (rule refl)
  show ?case
  proof (cases "spec_entry_matches addr net")
    case True
    then show ?thesis using m by auto
  next
    case False
    then show ?thesis using m Cons.IH by auto
  qed
qed

lemma find_no_family:
  "sa_family addr \<noteq> AF_INET \<Longrightarrow> sa_family addr \<noteq> AF_INET6 \<Longrightarrow>
   find (spec_entry_matches addr) list = None"
  by (induction list) (auto simp: spec_entry_matches_def)

text \<open>\<^verbatim>\<open>MatchIP\<close> returns the first entry of the list, in link order, that matches.\<close>

lemma MatchIP_find:
  "MatchIP list addr = find (spec_entry_matches addr) list"
proof (cases "sa_family addr \<noteq> AF_INET \<and> sa_family addr \<noteq> AF_INET6")
  case True
  then show ?thesis
    by (simp add: MatchIP_def find_no_family)
next
  case False
  then show ?thesis
    by (cases list) (auto simp add: MatchIP_def MatchIP_loop_find simp del: MatchIP_loop.simps)
qed

lemma foldl_insert_entry: "foldl insert_entry acc entries = acc @ entries"
  by (induction entries arbitrary: acc) (simp_all add: insert_entry_def)

lemma policy_list_entries: "policy_list entries = entries"
  by (simp add: policy_list_def foldl_insert_entry)

lemma find_append_one:
  "find P (xs @ [x]) =
     (case find P xs of Some y \<Rightarrow> Some y | None \<Rightarrow> if P x then Some x else None)"
  by (induction xs) simp_all

text \<open>
  Claim C9. For every policy list, built by inserting its entries one after the other,
  and every socket address, \<^verbatim>\<open>MatchIP\<close> returns the first entry in insertion order that
  matches the address, or nothing: the entry returned matches, no entry inserted before
  it does, and an entry inserted later never takes the place of an earlier match. An
  IPv4 address matches an IPv4 entry exactly when \<open>(addr & mask) == network\<close>, an IPv6
  address matches an IPv6 entry exactly when the octet-wise AND of the address with the
  mask equals the network in all 16 octets, entries of another family never match, and an
  address of a family other than IPv4 or IPv6 matches nothing.
\<close>

theorem MatchIP_insertion_order:
  "MatchIP (policy_list entries) addr = find (spec_entry_matches addr) entries \<and>
   (\<forall>net. MatchIP (policy_list entries) addr = Some net \<longleftrightarrow>
      (\<exists>i < length entries. entries ! i = net \<and> spec_entry_matches addr (entries ! i) \<and>
         (\<forall>j < i. \<not> spec_entry_matches addr (entries ! j)))) \<and>
   (MatchIP (policy_list entries) addr = None \<longleftrightarrow>
      (\<forall>net \<in> set entries. \<not> spec_entry_matches addr net)) \<and>
   MatchIP (insert_entry list new) addr =
     (case MatchIP list addr of
        Some net \<Rightarrow> Some net
      | None \<Rightarrow> if spec_entry_matches addr new then Some new else None) \<and>
   (sa_family addr \<noteq> AF_INET \<and> sa_family addr \<noteq> AF_INET6 \<longrightarrow>
      MatchIP (policy_list entries) addr = None)"
proof -
  have f: "MatchIP (policy_list entries) addr = find (spec_entry_matches addr) entries"
    by (simp add: MatchIP_find policy_list_entries)
  have s: "\<forall>net. MatchIP (policy_list entries) addr = Some net \<longleftrightarrow>
      (\<exists>i < length entries. entries ! i = net \<and> spec_entry_matches addr (entries ! i) \<and>
         (\<forall>j < i. \<not> spec_entry_matches addr (entries ! j)))"
    unfolding f find_Some_iff by auto
  have n: "MatchIP (policy_list entries) addr = None \<longleftrightarrow>
      (\<forall>net \<in> set entries. \<not> spec_entry_matches addr net)"
    unfolding f find_None_iff by auto
  have i: "MatchIP (insert_entry list new) addr =
     (case MatchIP list addr of
        Some net \<Rightarrow> Some net
      | None \<Rightarrow> if spec_entry_matches addr new then Some new else None)"
    by (simp add: MatchIP_find insert_entry_def find_append_one)
  have o: "sa_family addr \<noteq> AF_INET \<and> sa_family addr \<noteq> AF_INET6 \<longrightarrow>
      MatchIP (policy_list entries) addr = None"
    unfolding f by (simp add: find_no_family)
  show ?thesis
    using f s n i o by (intro conjI)
qed

theorem MatchIP_insertion_order_witness:
  "MatchIP (policy_list [net_2001_db8, net_10_0_0_5, net_10_8]) addr_10_0_0_5
     = Some net_10_0_0_5 \<and>
   MatchIP (policy_list [net_10_8, net_10_0_0_5]) addr_10_0_0_5 = Some net_10_8 \<and>
   spec_entry_matches addr_10_0_0_5 net_10_0_0_5 \<and> spec_entry_matches addr_10_0_0_5 net_10_8 \<and>
   MatchIP (policy_list [net_10_8, net_2001_db8]) addr_2001_db8_1 = Some net_2001_db8 \<and>
   spec_entry_matches addr_2001_db8_1 net_2001_db8 \<and>
   MatchIP (policy_list [net_10_0_0_5, net_2001_db8]) addr_10_0_0_1 = None \<and>
   MatchIP (policy_list [net_10_8, net_2001_db8]) addr_unix = None"
proof -
  have m4: "spec_entry_matches addr_10_0_0_5 net_10_0_0_5"
    by (simp add: spec_entry_matches_def example_defs)
  have m8: "spec_entry_matches addr_10_0_0_5 net_10_8"
    by (simp add: spec_entry_matches_def example_defs)
  have n6: "\<not> spec_entry_matches addr_10_0_0_5 net_2001_db8"
    by (simp add: spec_entry_matches_def example_defs)
  have m6: "spec_entry_matches addr_2001_db8_1 net_2001_db8"
    unfolding spec_entry_matches_def upt_16 by (simp add: example_defs)
  have n4: "\<not> spec_entry_matches addr_2001_db8_1 net_10_8"
    by (simp add: spec_entry_matches_def example_defs)
  have n1: "\<not> spec_entry_matches addr_10_0_0_1 net_10_0_0_5"
    by (simp add: spec_entry_matches_def example_defs)
  have n1': "\<not> spec_entry_matches addr_10_0_0_1 net_2001_db8"
    by (simp add: spec_entry_matches_def example_defs)
  have u: "\<not> spec_entry_matches addr_unix net_10_8" "\<not> spec_entry_matches addr_unix net_2001_db8"
    by (simp_all add: spec_entry_matches_def example_defs)
  show ?thesis
    using MatchIP_insertion_order
        [of "[net_2001_db8, net_10_0_0_5, net_10_8]" addr_10_0_0_5, THEN conjunct1]
      MatchIP_insertion_order [of "[net_10_8, net_10_0_0_5]" addr_10_0_0_5, THEN conjunct1]
      MatchIP_insertion_order [of "[net_10_8, net_2001_db8]" addr_2001_db8_1, THEN conjunct1]
      MatchIP_insertion_order [of "[net_10_0_0_5, net_2001_db8]" addr_10_0_0_1, THEN conjunct1]
      MatchIP_insertion_order [of "[net_10_8, net_2001_db8]" addr_unix, THEN conjunct1]
    by (simp add: m4 m8 n6 m6 n4 n1 n1' u)
qed

subsection \<open>Facts about the admission policy\<close>

lemma match_step_cases:
  "match_step config paddr = (Some Reject_nonmatching, [Step_match]) \<and>
     matchips config \<noteq> [] \<and> MatchIP (matchips config) paddr = None
   \<or> match_step config paddr = (None, if matchips config \<noteq> [] then [Step_match] else []) \<and>
     (matchips config = [] \<or> MatchIP (matchips config) paddr \<noteq> None)"
  by (auto simp: match_step_def)

lemma reject_step_cases:
  "reject_step config paddr = (Some Reject_listed, [Step_reject]) \<and>
     rejectips config \<noteq> [] \<and> MatchIP (rejectips config) paddr \<noteq> None
   \<or> reject_step config paddr = (None, if rejectips config \<noteq> [] then [Step_reject] else []) \<and>
     (rejectips config = [] \<or> MatchIP (rejectips config) paddr = None)"
  by (auto simp: reject_step_def)

lemma per_ip_step_cases:
  "per_ip_step config param paddr = (Some Reject_per_ip, [Step_per_ip]) \<and>
     maxclientsperip config \<noteq> 0 \<and>
     \<not> (writeips config \<noteq> [] \<and> MatchIP (writeips config) paddr \<noteq> None) \<and>
     maxclientsperip config \<le> ClientIPCount param paddr
   \<or> per_ip_step config param paddr =
       (None, if maxclientsperip config \<noteq> 0 then [Step_per_ip] else []) \<and>
     (maxclientsperip config = 0 \<or>
      (writeips config \<noteq> [] \<and> MatchIP (writeips config) paddr \<noteq> None) \<or>
      ClientIPCount param paddr < maxclientsperip config)"
  by (auto simp: per_ip_step_def)

lemma max_clients_step_trace:
  "snd (max_clients_step config param paddr) =
     (if maxclients config \<noteq> 0 then [Step_max_clients] else [])"
  by (simp add: max_clients_step_def)

lemma max_clients_step_verdict:
  "fst (max_clients_step config param paddr) \<in> {Reject_max_clients, Admit_reserve, Admit}"
  by (simp add: max_clients_step_def)

lemma admission_nonmatching:
  assumes "matchips config \<noteq> []" "MatchIP (matchips config) paddr = None"
  shows "admission config param paddr = (Reject_nonmatching, [Step_match])"
  using assms by (simp add: admission_def match_step_def)

lemma admission_listed:
  assumes "matchips config = [] \<or> MatchIP (matchips config) paddr \<noteq> None"
    and "rejectips config \<noteq> []" "MatchIP (rejectips config) paddr \<noteq> None"
  shows "admission config param paddr =
           (Reject_listed, (if matchips config \<noteq> [] then [Step_match] else []) @ [Step_reject])"
  using assms by (auto simp: admission_def match_step_def reject_step_def)

lemma admission_passed_lists:
  assumes "matchips config = [] \<or> MatchIP (matchips config) paddr \<noteq> None"
    and "rejectips config = [] \<or> MatchIP (rejectips config) paddr = None"
  shows "admission config param paddr =
     (case per_ip_step config param paddr of
        (Some v, t3) \<Rightarrow>
          (v, (if matchips config \<noteq> [] then [Step_match] else []) @
              (if rejectips config \<noteq> [] then [Step_reject] else []) @ t3)
      | (None, t3) \<Rightarrow>
          (fst (max_clients_step config param paddr),
           (if matchips config \<noteq> [] then [Step_match] else []) @
           (if rejectips config \<noteq> [] then [Step_reject] else []) @ t3 @
           snd (max_clients_step config param paddr)))"
proof -
  have m: "match_step config paddr = (None, if matchips config \<noteq> [] then [Step_match] else [])"
    using match_step_cases [of config paddr] assms(1) by auto
  have r: "reject_step config paddr = (None, if rejectips config \<noteq> [] then [Step_reject] else [])"
    using reject_step_cases [of config paddr] assms(2) by auto
  show ?thesis
    unfolding admission_def m r
    by (simp split: prod.splits option.splits)
qed

lemma admission_caps_after_lists:
  assumes "fst (admission config param paddr) \<in>
             {Reject_per_ip, Reject_max_clients, Admit_reserve, Admit}"
  shows "(matchips config = [] \<or> MatchIP (matchips config) paddr \<noteq> None) \<and>
         (rejectips config = [] \<or> MatchIP (rejectips config) paddr = None)"
proof (rule ccontr)
  assume n: "\<not> ?thesis"
  show False
  proof (cases "matchips config \<noteq> [] \<and> MatchIP (matchips config) paddr = None")
    case True
    then show False using assms admission_nonmatching [of config paddr param] by simp
  next
    case False
    then have "rejectips config \<noteq> [] \<and> MatchIP (rejectips config) paddr \<noteq> None"
      using n by auto
    then show False using assms False admission_listed [of config paddr param] by auto
  qed
qed

lemma admission_trace_ordered:
  "sorted_wrt (<) (map step_rank (snd (admission config param paddr)))"
proof (cases "matchips config \<noteq> [] \<and> MatchIP (matchips config) paddr = None")
  case True
  then show ?thesis by (simp add: admission_nonmatching)
next
  case nm: False
  show ?thesis
  proof (cases "rejectips config \<noteq> [] \<and> MatchIP (rejectips config) paddr \<noteq> None")
    case True
    then show ?thesis using nm admission_listed [of config paddr param] by auto
  next
    case False
    have a: "matchips config = [] \<or> MatchIP (matchips config) paddr \<noteq> None"
      using nm by auto
    have b: "rejectips config = [] \<or> MatchIP (rejectips config) paddr = None"
      using False by auto
    show ?thesis
      using per_ip_step_cases [of config param paddr]
      unfolding admission_passed_lists [OF a b] max_clients_step_trace
      by (elim disjE conjE) simp_all
  qed
qed

lemma admission_write_exempt:
  assumes "writeips config \<noteq> []" "MatchIP (writeips config) paddr \<noteq> None"
  shows "fst (admission config param paddr) \<noteq> Reject_per_ip"
    and "fst (admission config param paddr) =
         fst (admission (config\<lparr>maxclientsperip := 0\<rparr>) param paddr)"
proof -
  have p: "per_ip_step config param paddr =
             (None, if maxclientsperip config \<noteq> 0 then [Step_per_ip] else [])"
    using assms by (simp add: per_ip_step_def)
  have p0: "per_ip_step (config\<lparr>maxclientsperip := 0\<rparr>) param paddr = (None, [])"
    by (simp add: per_ip_step_def)
  have ms: "match_step (config\<lparr>maxclientsperip := 0\<rparr>) paddr = match_step config paddr"
    by (simp add: match_step_def)
  have rs: "reject_step (config\<lparr>maxclientsperip := 0\<rparr>) paddr = reject_step config paddr"
    by (simp add: reject_step_def)
  have mc: "max_clients_step (config\<lparr>maxclientsperip := 0\<rparr>) param paddr =
            max_clients_step config param paddr"
    by (simp add: max_clients_step_def)
  show "fst (admission config param paddr) \<noteq> Reject_per_ip"
    using match_step_cases [of config paddr] reject_step_cases [of config paddr]
      max_clients_step_verdict [of config param paddr]
    unfolding admission_def p
    by (elim disjE conjE) (auto split: prod.splits)
  show "fst (admission config param paddr) =
         fst (admission (config\<lparr>maxclientsperip := 0\<rparr>) param paddr)"
    unfolding admission_def p p0 ms rs mc
    by (simp split: prod.splits option.splits)
qed

lemma admission_per_ip_iff:
  "fst (admission config param paddr) = Reject_per_ip \<longleftrightarrow>
     (matchips config = [] \<or> MatchIP (matchips config) paddr \<noteq> None) \<and>
     (rejectips config = [] \<or> MatchIP (rejectips config) paddr = None) \<and>
     maxclientsperip config \<noteq> 0 \<and>
     \<not> (writeips config \<noteq> [] \<and> MatchIP (writeips config) paddr \<noteq> None) \<and>
     maxclientsperip config \<le> ClientIPCount param paddr"
  (is "?l \<longleftrightarrow> ?r")
proof
  assume l: ?l
  then have ab: "(matchips config = [] \<or> MatchIP (matchips config) paddr \<noteq> None) \<and>
         (rejectips config = [] \<or> MatchIP (rejectips config) paddr = None)"
    using admission_caps_after_lists [of config param paddr] by simp
  then have a: "matchips config = [] \<or> MatchIP (matchips config) paddr \<noteq> None"
    and b: "rejectips config = [] \<or> MatchIP (rejectips config) paddr = None" by auto
  show ?r
    using l per_ip_step_cases [of config param paddr]
      max_clients_step_verdict [of config param paddr] ab
    unfolding admission_passed_lists [OF a b]
    by (elim disjE conjE) auto
next
  assume r: ?r
  then have a: "matchips config = [] \<or> MatchIP (matchips config) paddr \<noteq> None"
    and b: "rejectips config = [] \<or> MatchIP (rejectips config) paddr = None" by auto
  have p: "per_ip_step config param paddr = (Some Reject_per_ip, [Step_per_ip])"
    using r by (simp add: per_ip_step_def)
  show ?l
    unfolding admission_passed_lists [OF a b] p by simp
qed

text \<open>
  Claim C3. For every incoming connection the listener evaluates the admission policy
  in a fixed order. The match list comes first: an address that matches no entry of a
  non-empty match list is rejected with no other test made. The reject list comes
  second: an address that passed the match list and is on the reject list is rejected
  before any cap is looked at. Only a connection that passed both lists reaches the
  per-address cap and the cap on all clients, so the tests made are always in the order
  match, reject, per-address, all clients. The per-address cap rejects exactly the
  sources that are not on the write list and have reached it: for a source on the write
  list the verdict is the one of a configuration with no per-address cap.
\<close>

theorem admission_order:
  "(matchips config \<noteq> [] \<and> MatchIP (matchips config) paddr = None \<longrightarrow>
      admission config param paddr = (Reject_nonmatching, [Step_match])) \<and>
   ((matchips config = [] \<or> MatchIP (matchips config) paddr \<noteq> None) \<and>
    rejectips config \<noteq> [] \<and> MatchIP (rejectips config) paddr \<noteq> None \<longrightarrow>
      admission config param paddr =
        (Reject_listed, (if matchips config \<noteq> [] then [Step_match] else []) @ [Step_reject])) \<and>
   (fst (admission config param paddr) \<in>
      {Reject_per_ip, Reject_max_clients, Admit_reserve, Admit} \<longrightarrow>
      (matchips config = [] \<or> MatchIP (matchips config) paddr \<noteq> None) \<and>
      (rejectips config = [] \<or> MatchIP (rejectips config) paddr = None)) \<and>
   sorted_wrt (<) (map step_rank (snd (admission config param paddr))) \<and>
   (fst (admission config param paddr) = Reject_per_ip \<longleftrightarrow>
      (matchips config = [] \<or> MatchIP (matchips config) paddr \<noteq> None) \<and>
      (rejectips config = [] \<or> MatchIP (rejectips config) paddr = None) \<and>
      maxclientsperip config \<noteq> 0 \<and>
      \<not> (writeips config \<noteq> [] \<and> MatchIP (writeips config) paddr \<noteq> None) \<and>
      maxclientsperip config \<le> ClientIPCount param paddr) \<and>
   (writeips config \<noteq> [] \<and> MatchIP (writeips config) paddr \<noteq> None \<longrightarrow>
      fst (admission config param paddr) =
        fst (admission (config\<lparr>maxclientsperip := 0\<rparr>) param paddr))"
proof (intro conjI impI)
  assume "matchips config \<noteq> [] \<and> MatchIP (matchips config) paddr = None"
  then show "admission config param paddr = (Reject_nonmatching, [Step_match])"
    by (simp add: admission_nonmatching)
next
  assume "(matchips config = [] \<or> MatchIP (matchips config) paddr \<noteq> None) \<and>
    rejectips config \<noteq> [] \<and> MatchIP (rejectips config) paddr \<noteq> None"
  then show "admission config param paddr =
        (Reject_listed, (if matchips config \<noteq> [] then [Step_match] else []) @ [Step_reject])"
    using admission_listed [of config paddr param] by blast
next
  assume a: "fst (admission config param paddr) \<in>
      {Reject_per_ip, Reject_max_clients, Admit_reserve, Admit}"
  show "matchips config = [] \<or> MatchIP (matchips config) paddr \<noteq> None"
    using admission_caps_after_lists [OF a] by simp
  show "rejectips config = [] \<or> MatchIP (rejectips config) paddr = None"
    using admission_caps_after_lists [OF a] by simp
next
  show "sorted_wrt (<) (map step_rank (snd (admission config param paddr)))"
    by (rule admission_trace_ordered)
next
  show "fst (admission config param paddr) = Reject_per_ip \<longleftrightarrow>
      (matchips config = [] \<or> MatchIP (matchips config) paddr \<noteq> None) \<and>
      (rejectips config = [] \<or> MatchIP (rejectips config) paddr = None) \<and>
      maxclientsperip config \<noteq> 0 \<and>
      \<not> (writeips config \<noteq> [] \<and> MatchIP (writeips config) paddr \<noteq> None) \<and>
      maxclientsperip config \<le> ClientIPCount param paddr"
    by (rule admission_per_ip_iff)
next
  assume "writeips config \<noteq> [] \<and> MatchIP (writeips config) paddr \<noteq> None"
  then show "fst (admission config param paddr) =
        fst (admission (config\<lparr>maxclientsperip := 0\<rparr>) param paddr)"
    using admission_write_exempt(2) [of config paddr param] by blast
qed

lemma MatchIP_examples:
  "MatchIP [net_10_8] addr_192_0_2_1 = None"
  "MatchIP [net_10_8] addr_10_0_0_5 = Some net_10_8"
  "MatchIP [net_10_8] addr_10_0_0_1 = Some net_10_8"
  "MatchIP [net_10_0_0_5] addr_10_0_0_5 = Some net_10_0_0_5"
  "MatchIP [net_10_0_0_5] addr_10_0_0_1 = None"
  "MatchIP [net_10_0_0_5] addr_192_0_2_1 = None"
  by (simp_all add: MatchIP_def example_defs)

lemma ClientIPCount_examples:
  "ClientIPCount param_four addr_192_0_2_1 = 2"
  "ClientIPCount param_four addr_10_0_0_5 = 2"
  "ClientIPCount param_four addr_10_0_0_1 = 0"
  by (simp_all add: ClientIPCount_def same_ip_def new_ClientInfo_def example_defs)

theorem admission_order_witness:
  "admission config_match_reject param_start addr_192_0_2_1 = (Reject_nonmatching, [Step_match]) \<and>
   admission config_match_reject param_start addr_10_0_0_5 =
     (Reject_listed, [Step_match, Step_reject]) \<and>
   fst (admission config_match_reject param_start addr_10_0_0_1) = Admit \<and>
   MatchIP (matchips config_match_reject) addr_10_0_0_1 \<noteq> None \<and>
   MatchIP (rejectips config_match_reject) addr_10_0_0_1 = None \<and>
   fst (admission config_per_ip param_four addr_192_0_2_1) = Reject_per_ip \<and>
   ClientIPCount param_four addr_192_0_2_1 = 2 \<and>
   fst (admission config_per_ip param_four addr_10_0_0_5) = Admit \<and>
   ClientIPCount param_four addr_10_0_0_5 = 2"
proof -
  have c1: "matchips config_match_reject = [net_10_8]" "rejectips config_match_reject = [net_10_0_0_5]"
    "maxclientsperip config_match_reject = 0" "maxclients config_match_reject = 0"
    "writeips config_match_reject = []"
    by (simp_all add: config_match_reject_def config_open_def)
  have c2: "matchips config_per_ip = []" "rejectips config_per_ip = []"
    "maxclientsperip config_per_ip = 2" "maxclients config_per_ip = 0"
    "writeips config_per_ip = [net_10_0_0_5]"
    by (simp_all add: config_per_ip_def config_open_def)
  have a1: "fst (admission config_match_reject param_start addr_10_0_0_1) = Admit"
    by (simp add: admission_def match_step_def reject_step_def per_ip_step_def
        max_clients_step_def c1 MatchIP_examples)
  have a2: "fst (admission (config_per_ip\<lparr>maxclientsperip := 0\<rparr>) param_four addr_10_0_0_5) = Admit"
    by (simp add: admission_def match_step_def reject_step_def per_ip_step_def
        max_clients_step_def c2 MatchIP_examples)
  show ?thesis
    using admission_order [of config_match_reject addr_192_0_2_1 param_start]
      admission_order [of config_match_reject addr_10_0_0_5 param_start]
      admission_order [of config_match_reject addr_10_0_0_1 param_start]
      admission_order [of config_per_ip addr_192_0_2_1 param_four]
      admission_order [of config_per_ip addr_10_0_0_5 param_four]
    by (simp add: c1 c2 a1 a2 MatchIP_examples ClientIPCount_examples)
qed

subsection \<open>Facts about the client count\<close>

lemma client_pass_loop_snd:
  "snd (client_pass_loop config env t (ctp # rest) cc) =
     (if td_state ctp = TDS_CLOSED
      then snd (client_pass_loop config env t rest (if 0 < cc then cc - 1 else cc))
      else snd (client_pass_loop config env t rest cc))"
  by (simp add: case_prod_unfold)

lemma client_pass_loop_fst:
  "fst (client_pass_loop config env t (ctp # rest) cc) =
     (if td_state ctp = TDS_CLOSED
      then fst (client_pass_loop config env t rest (if 0 < cc then cc - 1 else cc))
      else client_update config env t ctp # fst (client_pass_loop config env t rest cc))"
  by (simp add: case_prod_unfold)

lemma client_pass_loop_count:
  "0 \<le> cc \<Longrightarrow> 0 \<le> snd (client_pass_loop config env t cs cc)"
proof (induction cs arbitrary: cc)
  case Nil
  then show ?case by simp
next
  case (Cons ctp rest)
  have "0 \<le> (if 0 < cc then cc - 1 else cc)" using Cons.prems by simp
  then have "0 \<le> snd (client_pass_loop config env t rest (if 0 < cc then cc - 1 else cc))"
    by (rule Cons.IH)
  moreover have "0 \<le> snd (client_pass_loop config env t rest cc)"
    using Cons.prems by (rule Cons.IH)
  ultimately show ?case
    unfolding client_pass_loop_snd by (simp del: client_pass_loop.simps)
qed

lemma client_pass_loop_le:
  "snd (client_pass_loop config env t cs cc) \<le> cc"
proof (induction cs arbitrary: cc)
  case Nil
  show ?case by simp
next
  case (Cons ctp rest)
  have "snd (client_pass_loop config env t rest (if 0 < cc then cc - 1 else cc))
          \<le> (if 0 < cc then cc - 1 else cc)"
    by (rule Cons.IH)
  then have "snd (client_pass_loop config env t rest (if 0 < cc then cc - 1 else cc)) \<le> cc"
    by (simp split: if_splits)
  moreover have "snd (client_pass_loop config env t rest cc) \<le> cc"
    by (rule Cons.IH)
  ultimately show ?case
    unfolding client_pass_loop_snd by (simp del: client_pass_loop.simps)
qed

lemma clientcount_client_pass:
  "clientcount (client_pass config env t param) =
     snd (client_pass_loop config env t (cthreads param) (clientcount param))"
  by (simp add: client_pass_def case_prod_unfold)

lemma clientcount_connection:
  "clientcount (ListenThread_connection config spawned ctid now paddr param) =
     (if admitted (fst (admission config param paddr)) \<and> spawned
      then clientcount param + 1 else clientcount param)"
  by (simp add: ListenThread_connection_def)

lemma server_event_nonneg:
  assumes "0 \<le> clientcount param"
  shows "0 \<le> clientcount (server_event config param ev)"
proof (cases ev)
  case (Connection spawned ctid now paddr)
  then show ?thesis using assms by (simp add: clientcount_connection)
next
  case (Workers f)
  then show ?thesis using assms by simp
next
  case (Client_pass env t)
  then show ?thesis
    using client_pass_loop_count [OF assms, of config env t "cthreads param"]
    by (simp add: clientcount_client_pass)
qed

lemma run_events_nonneg:
  "0 \<le> clientcount param \<Longrightarrow> 0 \<le> clientcount (run_events config param evs)"
  unfolding run_events_def
proof (induction evs arbitrary: param)
  case Nil
  then show ?case by simp
next
  case (Cons ev evs)
  have "0 \<le> clientcount (server_event config param ev)"
    using Cons.prems by (rule server_event_nonneg)
  then have "0 \<le> clientcount (foldl (server_event config) (server_event config param ev) evs)"
    by (rule Cons.IH)
  then show ?case by simp
qed

text \<open>
  With a fixed configuration that limits the clients, the count stays within the
  maximum plus eleven.
\<close>

lemma admission_verdict_passed:
  assumes "matchips config = [] \<or> MatchIP (matchips config) paddr \<noteq> None"
    and "rejectips config = [] \<or> MatchIP (rejectips config) paddr = None"
  shows "fst (admission config param paddr) =
     (if maxclientsperip config \<noteq> 0 \<and>
         \<not> (writeips config \<noteq> [] \<and> MatchIP (writeips config) paddr \<noteq> None) \<and>
         maxclientsperip config \<le> ClientIPCount param paddr
      then Reject_per_ip else fst (max_clients_step config param paddr))"
  unfolding admission_passed_lists [OF assms]
  by (simp add: per_ip_step_def)

lemma max_clients_step_admitted:
  assumes "maxclients config \<noteq> 0" "admitted (fst (max_clients_step config param paddr))"
  shows "clientcount param \<le> int (maxclients config) + 10"
proof (cases "int (maxclients config) \<le> clientcount param")
  case True
  show ?thesis
  proof (cases "(writeips config \<noteq> [] \<and> MatchIP (writeips config) paddr \<noteq> None) \<and>
            clientcount param \<le> int (maxclients config + RESERVECONNECTIONS)")
    case True
    then show ?thesis by (simp add: RESERVECONNECTIONS_def)
  next
    case False
    then have "fst (max_clients_step config param paddr) = Reject_max_clients"
      using \<open>int (maxclients config) \<le> clientcount param\<close> assms(1)
      by (simp add: max_clients_step_def)
    then show ?thesis using assms(2) by (simp add: admitted_def)
  qed
next
  case False
  then show ?thesis by simp
qed

lemma admitted_below_reserve:
  assumes "maxclients config \<noteq> 0" "admitted (fst (admission config param paddr))"
  shows "clientcount param \<le> int (maxclients config) + 10"
proof -
  have v: "fst (admission config param paddr) \<in>
             {Reject_per_ip, Reject_max_clients, Admit_reserve, Admit}"
    using assms(2) by (auto simp: admitted_def)
  have a: "matchips config = [] \<or> MatchIP (matchips config) paddr \<noteq> None"
    and b: "rejectips config = [] \<or> MatchIP (rejectips config) paddr = None"
    using admission_caps_after_lists [OF v] by simp_all
  have "fst (admission config param paddr) = fst (max_clients_step config param paddr)"
    using assms(2) unfolding admission_verdict_passed [OF a b]
    by (auto simp: admitted_def split: if_splits)
  then show ?thesis
    using assms max_clients_step_admitted [of config param paddr] by simp
qed

lemma server_event_bound:
  assumes "maxclients config \<noteq> 0" "clientcount param \<le> int (maxclients config) + 11"
  shows "clientcount (server_event config param ev) \<le> int (maxclients config) + 11"
proof (cases ev)
  case (Connection spawned ctid now paddr)
  show ?thesis
  proof (cases "admitted (fst (admission config param paddr)) \<and> spawned")
    case True
    then have "clientcount param \<le> int (maxclients config) + 10"
      using assms(1) admitted_below_reserve [of config param paddr] by simp
    then show ?thesis using True Connection by (simp add: clientcount_connection)
  next
    case False
    then show ?thesis using assms(2) Connection by (auto simp: clientcount_connection)
  qed
next
  case (Workers f)
  then show ?thesis using assms by simp
next
  case (Client_pass env t)
  then show ?thesis
    using assms client_pass_loop_le [of config env t "cthreads param" "clientcount param"]
    by (simp add: clientcount_client_pass)
qed

lemma run_events_bound:
  "maxclients config \<noteq> 0 \<Longrightarrow> clientcount param \<le> int (maxclients config) + 11 \<Longrightarrow>
   clientcount (run_events config param evs) \<le> int (maxclients config) + 11"
  unfolding run_events_def
proof (induction evs arbitrary: param)
  case Nil
  then show ?case by simp
next
  case (Cons ev evs)
  have "clientcount (server_event config param ev) \<le> int (maxclients config) + 11"
    using Cons.prems by (rule server_event_bound)
  then have "clientcount (foldl (server_event config) (server_event config param ev) evs)
               \<le> int (maxclients config) + 11"
    using Cons.prems(1) Cons.IH by blast
  then show ?case by simp
qed

text \<open>
  Claim C10. The global client count never becomes negative. An admitted connection
  whose thread is started increments the count by one; the reaping of a closed client
  thread decrements it only when it is strictly positive; so from a count that is not
  negative, in particular from the initial 0, every sequence of connections, client
  activity and watchdog passes leads to a count that is not negative.
\<close>

theorem clientcount_never_negative:
  "(admitted (fst (admission config param paddr)) \<longrightarrow>
      clientcount (ListenThread_connection config True ctid now paddr param) =
        clientcount param + 1) \<and>
   clientcount (client_pass config env t (param\<lparr> cthreads := [ctp] \<rparr>)) =
     (if td_state ctp = TDS_CLOSED \<and> 0 < clientcount param then clientcount param - 1
      else clientcount param) \<and>
   (0 \<le> clientcount param \<longrightarrow> 0 \<le> clientcount (run_events config param evs))"
proof (intro conjI impI)
  assume "admitted (fst (admission config param paddr))"
  then show "clientcount (ListenThread_connection config True ctid now paddr param) =
        clientcount param + 1"
    by (simp add: clientcount_connection)
next
  show "clientcount (client_pass config env t (param\<lparr> cthreads := [ctp] \<rparr>)) =
     (if td_state ctp = TDS_CLOSED \<and> 0 < clientcount param then clientcount param - 1
      else clientcount param)"
    unfolding clientcount_client_pass
    by (simp add: client_pass_loop_snd del: client_pass_loop.simps(2))
next
  assume "0 \<le> clientcount param"
  then show "0 \<le> clientcount (run_events config param evs)"
    by (rule run_events_nonneg)
qed

theorem clientcount_never_negative_witness:
  "admitted (fst (admission config_open param_start addr_10_0_0_1)) \<and>
   clientcount (ListenThread_connection config_open True 3 0 addr_10_0_0_1 param_start) = 1 \<and>
   clientcount (client_pass config_open env_quiet 0 (param_start\<lparr> cthreads := [client_closed] \<rparr>)) = 0 \<and>
   0 \<le> clientcount param_start \<and>
   clientcount (run_events config_open param_start
     [Connection True 3 0 addr_10_0_0_1, Workers all_close, Client_pass env_quiet 0]) = 0"
proof -
  have a: "admitted (fst (admission config_open param_start addr_10_0_0_1))"
    by (simp add: admitted_def admission_def match_step_def reject_step_def per_ip_step_def
        max_clients_step_def config_open_def)
  have c: "td_state client_closed = TDS_CLOSED"
    by (simp add: client_closed_def)
  have z: "clientcount param_start = 0"
    by (simp add: param_start_def)
  have r: "clientcount (run_events config_open param_start
     [Connection True 3 0 addr_10_0_0_1, Workers all_close, Client_pass env_quiet 0]) = 0"
    using a
    by (simp add: run_events_def clientcount_client_pass ListenThread_connection_def
        all_close_def param_start_def)
  show ?thesis
    using clientcount_never_negative [of config_open param_start addr_10_0_0_1 3 0
        env_quiet 0 client_closed
        "[Connection True 3 0 addr_10_0_0_1, Workers all_close, Client_pass env_quiet 0]"]
    by (simp add: a c z r)
qed

subsection \<open>The reserve of connections\<close>

lemma admission_max5_pair:
  "admission config_max5 param paddr = max_clients_step config_max5 param paddr"
  by (simp add: admission_def match_step_def reject_step_def per_ip_step_def
      config_max5_def config_open_def case_prod_unfold)

lemma admission_max5:
  "fst (admission config_max5 param paddr) = fst (max_clients_step config_max5 param paddr)"
  by (simp add: admission_max5_pair)

lemma max5_write:
  "MatchIP (writeips config_max5) addr_10_0_0_1 = Some net_10_8"
  "MatchIP (writeips config_max5) addr_192_0_2_1 = None"
  "writeips config_max5 \<noteq> []" "maxclients config_max5 = 5"
  by (simp_all add: config_max5_def config_open_def MatchIP_examples)

lemma max5_connection_192:
  assumes "clientcount param < 5"
  shows "clientcount (server_event config_max5 param (Connection True i t addr_192_0_2_1)) =
         clientcount param + 1"
  using assms
  by (simp add: clientcount_connection admission_max5 max_clients_step_def max5_write admitted_def)

lemma max5_connection_10:
  assumes "clientcount param \<le> 15"
  shows "clientcount (server_event config_max5 param (Connection True i t addr_10_0_0_1)) =
         clientcount param + 1"
  using assms
  by (simp add: clientcount_connection admission_max5 max_clients_step_def max5_write admitted_def
      RESERVECONNECTIONS_def)

lemma max5_run_192:
  "clientcount param + int n \<le> 5 \<Longrightarrow>
   clientcount (foldl (server_event config_max5) param
      (replicate n (Connection True i t addr_192_0_2_1))) = clientcount param + int n"
proof (induction n arbitrary: param)
  case 0
  show ?case by simp
next
  case (Suc n)
  have s: "clientcount (server_event config_max5 param (Connection True i t addr_192_0_2_1)) =
         clientcount param + 1"
    using Suc.prems by (intro max5_connection_192) simp
  have "clientcount (foldl (server_event config_max5)
           (server_event config_max5 param (Connection True i t addr_192_0_2_1))
           (replicate n (Connection True i t addr_192_0_2_1))) =
        clientcount (server_event config_max5 param (Connection True i t addr_192_0_2_1)) + int n"
    using Suc.prems s by (intro Suc.IH) simp
  then show ?case using s by simp
qed

lemma max5_run_10:
  "clientcount param + int n \<le> 16 \<Longrightarrow>
   clientcount (foldl (server_event config_max5) param
      (replicate n (Connection True i t addr_10_0_0_1))) = clientcount param + int n"
proof (induction n arbitrary: param)
  case 0
  show ?case by simp
next
  case (Suc n)
  have s: "clientcount (server_event config_max5 param (Connection True i t addr_10_0_0_1)) =
         clientcount param + 1"
    using Suc.prems by (intro max5_connection_10) simp
  have "clientcount (foldl (server_event config_max5)
           (server_event config_max5 param (Connection True i t addr_10_0_0_1))
           (replicate n (Connection True i t addr_10_0_0_1))) =
        clientcount (server_event config_max5 param (Connection True i t addr_10_0_0_1)) + int n"
    using Suc.prems s by (intro Suc.IH) simp
  then show ?case using s by simp
qed

lemma max5_five:
  "clientcount (foldl (server_event config_max5) param_start
      (replicate 5 (Connection True 0 0 addr_192_0_2_1))) = 5"
  using max5_run_192 [of param_start 5 0 0] by (simp add: param_start_def)

lemma max5_fifteen:
  "clientcount (run_events config_max5 param_start (take 15 connections_16)) = 15"
proof -
  have t: "take 15 connections_16 =
     replicate 5 (Connection True 0 0 addr_192_0_2_1) @
     replicate 10 (Connection True 0 0 addr_10_0_0_1)"
    by (simp add: connections_16_def)
  show ?thesis
    unfolding t run_events_def foldl_append
    using max5_run_10 [of "foldl (server_event config_max5) param_start
      (replicate 5 (Connection True 0 0 addr_192_0_2_1))" 10 0 0]
    by (simp add: max5_five)
qed

lemma max5_sixteen:
  "clientcount (run_events config_max5 param_start connections_16) = 16"
  unfolding connections_16_def run_events_def foldl_append
  using max5_run_10 [of "foldl (server_event config_max5) param_start
      (replicate 5 (Connection True 0 0 addr_192_0_2_1))" 11 0 0]
  by (simp add: max5_five)

text \<open>
  Claim C1. At the maximum number of clients a connection is admitted only when its
  source is on the write list, and the specification bounds the clients then by the
  maximum plus 10. The program tests \<^verbatim>\<open>clientcount <= maxclients + RESERVECONNECTIONS\<close>
  before it adds the client, so it admits one more: with a maximum of 5 and 10.0.0.0/8
  on the write list, five connections from 192.0.2.1 and eleven from 10.0.0.1 are all
  admitted. The eleventh arrives with 15 clients connected and is let into the reserve,
  which makes 16 clients, the maximum plus 11; only the next one is rejected.
\<close>

theorem reserve_admits_eleventh:
  "clientcount (run_events config_max5 param_start (take 15 connections_16)) = 15 \<and>
   admission config_max5 (run_events config_max5 param_start (take 15 connections_16))
     addr_10_0_0_1 = (Admit_reserve, [Step_max_clients]) \<and>
   clientcount (run_events config_max5 param_start connections_16) = 16 \<and>
   int (maxclients config_max5 + RESERVECONNECTIONS) <
     clientcount (run_events config_max5 param_start connections_16) \<and>
   fst (admission config_max5 (run_events config_max5 param_start connections_16)
     addr_10_0_0_1) = Reject_max_clients"
proof (intro conjI)
  show "clientcount (run_events config_max5 param_start (take 15 connections_16)) = 15"
    by (rule max5_fifteen)
  show "admission config_max5 (run_events config_max5 param_start (take 15 connections_16))
     addr_10_0_0_1 = (Admit_reserve, [Step_max_clients])"
    by (simp add: admission_max5_pair max_clients_step_def max5_write max5_fifteen
        RESERVECONNECTIONS_def)
  show "clientcount (run_events config_max5 param_start connections_16) = 16"
    by (rule max5_sixteen)
  show "int (maxclients config_max5 + RESERVECONNECTIONS) <
     clientcount (run_events config_max5 param_start connections_16)"
    by (simp add: max5_sixteen max5_write RESERVECONNECTIONS_def)
  show "fst (admission config_max5 (run_events config_max5 param_start connections_16)
     addr_10_0_0_1) = Reject_max_clients"
    by (simp add: admission_max5 max_clients_step_def max5_write max5_sixteen
        RESERVECONNECTIONS_def)
qed

subsection \<open>Facts about the watchdog loop\<close>

lemma client_pass_loop_map:
  "fst (client_pass_loop config env t cs cc) =
     map (client_update config env t) (filter (\<lambda>ctp. td_state ctp \<noteq> TDS_CLOSED) cs)"
proof (induction cs arbitrary: cc)
  case Nil
  show ?case by simp
next
  case (Cons ctp rest)
  show ?case
    unfolding client_pass_loop_fst
    by (simp add: Cons.IH del: client_pass_loop.simps)
qed

lemma cthreads_client_pass:
  "cthreads (client_pass config env t param) =
     map (client_update config env t)
       (filter (\<lambda>ctp. td_state ctp \<noteq> TDS_CLOSED) (cthreads param))"
  by (simp add: client_pass_def case_prod_unfold client_pass_loop_map)

lemma shutdownsig_client_pass:
  "shutdownsig (client_pass config env t param) = shutdownsig param"
  by (simp add: client_pass_def case_prod_unfold)

lemma lastxchange_CalcStats:
  "lastxchange (CalcStats_cinfo R rp now cinfo) = lastxchange cinfo"
  by (simp add: CalcStats_cinfo_def Let_def)

lemma td_state_idle_close:
  "td_state (idle_close config t ctp) =
     (if clienttimeout config \<noteq> 0 \<and>
         int (clienttimeout config) * NSTMODULUS < t - lastxchange (td_prvtptr ctp) \<and>
         td_state ctp \<noteq> TDS_CLOSE \<and> td_state ctp \<noteq> TDS_CLOSING \<and> td_state ctp \<noteq> TDS_CLOSED
      then TDS_CLOSE else td_state ctp)"
  by (simp add: idle_close_def)

lemma td_state_client_update:
  assumes "\<And>c. lastxchange (env_WriteTLog env c) = lastxchange c"
  shows "td_state (client_update config env t ctp) =
     (if clienttimeout config \<noteq> 0 \<and>
         int (clienttimeout config) * NSTMODULUS < t - lastxchange (td_prvtptr ctp) \<and>
         td_state ctp \<noteq> TDS_CLOSE \<and> td_state ctp \<noteq> TDS_CLOSING \<and> td_state ctp \<noteq> TDS_CLOSED
      then TDS_CLOSE else td_state ctp)"
  by (simp add: client_update_def Let_def td_state_idle_close assms lastxchange_CalcStats)

lemma shutdown_cthread_state:
  "td_state (shutdown_cthread ctp) =
     (if td_state ctp = TDS_CLOSING \<or> td_state ctp = TDS_CLOSED then td_state ctp else TDS_CLOSE)"
  by (simp add: shutdown_cthread_def)

lemma shutdown_cthread_filter:
  "filter (\<lambda>ctp. td_state ctp \<noteq> TDS_CLOSED) (map shutdown_cthread cs) =
     map shutdown_cthread (filter (\<lambda>ctp. td_state ctp \<noteq> TDS_CLOSED) cs)"
  by (induction cs) (simp_all add: shutdown_cthread_state)

lemma safety_valve_continue:
  "shutdownsig param < 100 \<Longrightarrow>
   safety_valve param =
     (False, if 1 < shutdownsig param then param\<lparr> shutdownsig := shutdownsig param + 1 \<rparr>
             else param)"
  by (simp add: safety_valve_def)

lemma safety_valve_break:
  "100 \<le> shutdownsig param \<Longrightarrow> safety_valve param = (True, param)"
  by (simp add: safety_valve_def)

lemma watchdog_tick_cthreads:
  assumes "shutdownsig param < 100"
  shows "cthreads (fst (snd (watchdog_tick config env t (param, tv_nsec)))) =
     map (\<lambda>ctp. client_update config env t
                  (if shutdownsig param = 1 then shutdown_cthread ctp else ctp))
       (filter (\<lambda>ctp. td_state ctp \<noteq> TDS_CLOSED) (cthreads param))"
proof (cases "shutdownsig param = 1")
  case True
  then show ?thesis
    by (simp add: watchdog_tick_def shutdown_sequence_def safety_valve_def Let_def
        cthreads_client_pass shutdown_cthread_filter comp_def)
next
  case False
  then show ?thesis
    using assms
    by (simp add: watchdog_tick_def shutdown_sequence_def safety_valve_continue Let_def
        cthreads_client_pass)
qed

text \<open>
  Claim C8. In a pass of the watchdog loop with a client timeout configured (a pass
  that the safety valve does not cut short), the client threads after the pass are those
  that were not \<open>TDS_CLOSED\<close>, each updated. The update sets the state of a client to
  \<open>TDS_CLOSE\<close> when the time since its last exchange exceeds the timeout and its state
  is not already \<open>TDS_CLOSE\<close>, \<open>TDS_CLOSING\<close> or \<open>TDS_CLOSED\<close>; it leaves the state
  of a client within the timeout as it is, and likewise a state that is already
  \<open>TDS_CLOSE\<close> or \<open>TDS_CLOSING\<close>. (\<^verbatim>\<open>WriteTLog\<close> is taken not to alter the time of the
  last exchange.)
\<close>

theorem idle_clients_closed:
  assumes "clienttimeout config \<noteq> 0"
    and "shutdownsig param < 100"
    and "\<And>c. lastxchange (env_WriteTLog env c) = lastxchange c"
  shows
  "cthreads (fst (snd (watchdog_tick config env hpcurtime (param, tv_nsec)))) =
     map (\<lambda>ctp. client_update config env hpcurtime
                  (if shutdownsig param = 1 then shutdown_cthread ctp else ctp))
       (filter (\<lambda>ctp. td_state ctp \<noteq> TDS_CLOSED) (cthreads param)) \<and>
   (\<forall>ctp. int (clienttimeout config) * NSTMODULUS < hpcurtime - lastxchange (td_prvtptr ctp) \<and>
          td_state ctp \<noteq> TDS_CLOSE \<and> td_state ctp \<noteq> TDS_CLOSING \<and>
          td_state ctp \<noteq> TDS_CLOSED \<longrightarrow>
          td_state (client_update config env hpcurtime ctp) = TDS_CLOSE \<and>
          td_state (client_update config env hpcurtime (shutdown_cthread ctp)) = TDS_CLOSE) \<and>
   (\<forall>ctp. \<not> int (clienttimeout config) * NSTMODULUS < hpcurtime - lastxchange (td_prvtptr ctp) \<longrightarrow>
          td_state (client_update config env hpcurtime ctp) = td_state ctp) \<and>
   (\<forall>ctp. td_state ctp = TDS_CLOSE \<or> td_state ctp = TDS_CLOSING \<longrightarrow>
          td_state (client_update config env hpcurtime ctp) = td_state ctp)"
proof (intro conjI allI impI)
  show "cthreads (fst (snd (watchdog_tick config env hpcurtime (param, tv_nsec)))) =
     map (\<lambda>ctp. client_update config env hpcurtime
                  (if shutdownsig param = 1 then shutdown_cthread ctp else ctp))
       (filter (\<lambda>ctp. td_state ctp \<noteq> TDS_CLOSED) (cthreads param))"
    using assms(2) by (rule watchdog_tick_cthreads)
next
  fix ctp :: cthread
  assume i: "int (clienttimeout config) * NSTMODULUS < hpcurtime - lastxchange (td_prvtptr ctp) \<and>
          td_state ctp \<noteq> TDS_CLOSE \<and> td_state ctp \<noteq> TDS_CLOSING \<and>
          td_state ctp \<noteq> TDS_CLOSED"
  show "td_state (client_update config env hpcurtime ctp) = TDS_CLOSE"
    using i assms(1) by (simp add: td_state_client_update [OF assms(3)])
  show "td_state (client_update config env hpcurtime (shutdown_cthread ctp)) = TDS_CLOSE"
    using i by (simp add: td_state_client_update [OF assms(3)] shutdown_cthread_state)
next
  fix ctp :: cthread
  assume "\<not> int (clienttimeout config) * NSTMODULUS < hpcurtime - lastxchange (td_prvtptr ctp)"
  then show "td_state (client_update config env hpcurtime ctp) = td_state ctp"
    by (simp add: td_state_client_update [OF assms(3)])
next
  fix ctp :: cthread
  assume "td_state ctp = TDS_CLOSE \<or> td_state ctp = TDS_CLOSING"
  then show "td_state (client_update config env hpcurtime ctp) = td_state ctp"
    by (auto simp: td_state_client_update [OF assms(3)])
qed

theorem idle_clients_closed_witness:
  "clienttimeout config_timeout \<noteq> 0 \<and> shutdownsig param_two < 100 \<and>
   map td_state (cthreads param_two) = [TDS_ACTIVE, TDS_ACTIVE] \<and>
   map (\<lambda>ctp. 3000000000 - lastxchange (td_prvtptr ctp)) (cthreads param_two) =
     [3000000000, 1000000000] \<and>
   map td_state
     (cthreads (fst (snd (watchdog_tick config_timeout env_quiet 3000000000
        (param_two, 250000000))))) = [TDS_CLOSE, TDS_ACTIVE]"
proof -
  have w: "\<And>c. lastxchange (env_WriteTLog env_quiet c) = lastxchange c"
    by (simp add: env_quiet_def)
  have c: "clienttimeout config_timeout \<noteq> 0" "clienttimeout config_timeout = 2"
    by (simp_all add: config_timeout_def config_open_def)
  have p: "shutdownsig param_two < 100" "shutdownsig param_two \<noteq> 1"
    "cthreads param_two = [client_heard 2 0, client_heard 3 2000000000]"
    by (simp_all add: param_two_def param_start_def)
  have h: "td_state (client_heard n t) = TDS_ACTIVE" "lastxchange (td_prvtptr (client_heard n t)) = t"
    for n t
    by (simp_all add: client_heard_def)
  show ?thesis
    using idle_clients_closed [OF c(1) p(1) w, of 3000000000 250000000]
    by (simp add: c p h td_state_client_update [OF w] NSTMODULUS_def)
qed

subsection \<open>The shutdown sequence\<close>

lemma shutdown_sthread_listen:
  "stype stp = LISTEN_THREAD \<Longrightarrow>
   lpp_socket (shutdown_sthread stp) = (if 0 < lpp_socket stp then - 1 else lpp_socket stp) \<and>
   std (shutdown_sthread stp) = std stp \<and> stype (shutdown_sthread stp) = LISTEN_THREAD"
  by (simp add: shutdown_sthread_def)

lemma shutdown_sthread_other:
  "stype stp \<noteq> LISTEN_THREAD \<Longrightarrow>
   std (shutdown_sthread stp) =
     (case std stp of
        None \<Rightarrow> None
      | Some st \<Rightarrow> if st = TDS_CLOSING \<or> st = TDS_CLOSED then Some st else Some TDS_CLOSE) \<and>
   lpp_socket (shutdown_sthread stp) = lpp_socket stp \<and>
   stype (shutdown_sthread stp) = stype stp"
  by (simp add: shutdown_sthread_def split: option.splits)

lemma shutdown_sequence_requested:
  "shutdownsig param = 1 \<Longrightarrow>
   shutdown_sequence (param, tv_nsec) =
     (param\<lparr> shutdownsig := 2,
             sthreads := map shutdown_sthread (sthreads param),
             cthreads := map shutdown_cthread (cthreads param) \<rparr>, 100000000)"
  by (simp add: shutdown_sequence_def)

lemma shutdown_sequence_idle:
  "shutdownsig param \<noteq> 1 \<Longrightarrow> shutdown_sequence (param, tv_nsec) = (param, tv_nsec)"
  by (simp add: shutdown_sequence_def)

text \<open>The effect of one pass on \<^verbatim>\<open>param.shutdownsig\<close> and on the sleep time.\<close>

lemma watchdog_tick_first:
  assumes "shutdownsig param = 1"
  shows "\<not> fst (watchdog_tick config env t (param, tv_nsec)) \<longrightarrow>
           shutdownsig (fst (snd (watchdog_tick config env t (param, tv_nsec)))) = 3"
    and "snd (snd (watchdog_tick config env t (param, tv_nsec))) = 100000000"
  using assms
  by (simp_all add: watchdog_tick_def shutdown_sequence_requested safety_valve_def Let_def
      shutdownsig_client_pass)

lemma watchdog_tick_draining:
  assumes "2 \<le> shutdownsig param"
  shows "fst (watchdog_tick config env t (param, tv_nsec)) \<or>
         shutdownsig param < 100 \<and>
         shutdownsig (fst (snd (watchdog_tick config env t (param, tv_nsec)))) =
           shutdownsig param + 1"
proof (cases "100 \<le> shutdownsig param")
  case True
  then show ?thesis
    using assms
    by (simp add: watchdog_tick_def shutdown_sequence_idle safety_valve_break)
next
  case False
  then show ?thesis
    using assms
    by (simp add: watchdog_tick_def shutdown_sequence_idle safety_valve_continue Let_def
        shutdownsig_client_pass)
qed

lemma watchdog_loop_step:
  "watchdog_loop (Suc fuel) config env clock world k st =
     (if fst (watchdog_tick config (env k) (clock k) st)
      then Some (k, snd (watchdog_tick config (env k) (clock k) st))
      else watchdog_loop fuel config env clock world (Suc k)
             (world k (fst (snd (watchdog_tick config (env k) (clock k) st))),
              snd (snd (watchdog_tick config (env k) (clock k) st))))"
  by (cases "watchdog_tick config (env k) (clock k) st") auto

lemma watchdog_loop_draining:
  assumes w: "\<And>k p. shutdownsig (world k p) = shutdownsig p"
  shows "2 \<le> shutdownsig param \<Longrightarrow> nat (100 - shutdownsig param) < fuel \<Longrightarrow>
     \<exists>k' st. watchdog_loop fuel config env clock world k (param, tv_nsec) = Some (k', st) \<and>
             k' \<le> k + nat (100 - shutdownsig param)"
proof (induction fuel arbitrary: k param tv_nsec)
  case 0
  then show ?case by simp
next
  case (Suc fuel)
  let ?r = "watchdog_tick config (env k) (clock k) (param, tv_nsec)"
  show ?case
  proof (cases "fst ?r")
    case True
    then show ?thesis
      unfolding watchdog_loop_step by simp
  next
    case False
    then have lt: "shutdownsig param < 100"
      and nx: "shutdownsig (fst (snd ?r)) = shutdownsig param + 1"
      using watchdog_tick_draining [OF Suc.prems(1), of config "env k" "clock k" tv_nsec]
      by simp_all
    let ?p = "world k (fst (snd ?r))"
    have s: "shutdownsig ?p = shutdownsig param + 1"
      using nx by (simp add: w)
    have a: "2 \<le> shutdownsig ?p" using s Suc.prems(1) by simp
    have b: "nat (100 - shutdownsig ?p) < fuel" using s Suc.prems(2) lt by simp
    obtain k' st where
      r: "watchdog_loop fuel config env clock world (Suc k) (?p, snd (snd ?r)) = Some (k', st)"
      and le: "k' \<le> Suc k + nat (100 - shutdownsig ?p)"
      using Suc.IH [OF a b, of "Suc k" "snd (snd ?r)"] by blast
    have "k' \<le> k + nat (100 - shutdownsig param)"
      using le s lt by simp
    then show ?thesis
      unfolding watchdog_loop_step using False r by simp
  qed
qed

lemma watchdog_loop_shutdown:
  assumes w: "\<And>k p. shutdownsig (world k p) = shutdownsig p"
    and s: "shutdownsig param = 1"
  shows "\<exists>k st. watchdog_loop 99 config env clock world 0 (param, tv_nsec) = Some (k, st) \<and>
            k < 99"
proof -
  let ?r = "watchdog_tick config (env 0) (clock 0) (param, tv_nsec)"
  have n: "(99::nat) = Suc 98" by simp
  show ?thesis
  proof (cases "fst ?r")
    case True
    then show ?thesis
      unfolding n watchdog_loop_step by simp
  next
    case False
    let ?p = "world 0 (fst (snd ?r))"
    have s3: "shutdownsig ?p = 3"
      using watchdog_tick_first(1) [OF s, of config "env 0" "clock 0" tv_nsec] False
      by (simp add: w)
    have a: "2 \<le> shutdownsig ?p" using s3 by simp
    have b: "nat (100 - shutdownsig ?p) < 98" using s3 by simp
    obtain k' st where
      r: "watchdog_loop 98 config env clock world (Suc 0) (?p, snd (snd ?r)) = Some (k', st)"
      and le: "k' \<le> Suc 0 + nat (100 - shutdownsig ?p)"
      using watchdog_loop_draining [of world ?p 98 config env clock "Suc 0" "snd (snd ?r)",
          OF w a b] by blast
    have "k' < 99" using le s3 by simp
    then show ?thesis
      unfolding n watchdog_loop_step using False r by simp
  qed
qed

lemma tick_shutdown_example:
  "watchdog_tick config_open env_quiet 0 (param_shutdown, 250000000) =
     (False, param_stuck 3, 100000000)"
  by (simp add: watchdog_tick_def shutdown_sequence_def safety_valve_def Let_def
      shutdown_sthread_def shutdown_cthread_def server_update_def
      client_pass_def client_update_def idle_close_def CalcStats_cinfo_def
      param_shutdown_def param_stuck_def client_heard_def new_ClientInfo_def
      config_open_def env_quiet_def)

lemma tick_stuck_example:
  assumes "2 \<le> sig" "sig < 100"
  shows "watchdog_tick config_open env_quiet 0 (param_stuck sig, tv_nsec) =
     (False, param_stuck (sig + 1), tv_nsec)"
  using assms
  by (simp add: watchdog_tick_def shutdown_sequence_def safety_valve_def Let_def
      server_update_def
      client_pass_def client_update_def idle_close_def CalcStats_cinfo_def
      param_stuck_def client_heard_def new_ClientInfo_def
      config_open_def env_quiet_def)

lemma tick_stuck_break:
  "watchdog_tick config_open env_quiet 0 (param_stuck 100, tv_nsec) =
     (True, param_stuck 100, tv_nsec)"
  by (simp add: watchdog_tick_def shutdown_sequence_def safety_valve_def param_stuck_def)

lemma loop_stuck_example:
  "2 \<le> sig \<Longrightarrow> sig \<le> 100 \<Longrightarrow> n = nat (100 - sig) \<Longrightarrow>
   watchdog_loop (Suc n) config_open (\<lambda>k. env_quiet) (\<lambda>k. 0) (\<lambda>k p. p) k
      (param_stuck sig, tv_nsec) = Some (k + n, param_stuck 100, tv_nsec) \<and>
   watchdog_loop n config_open (\<lambda>k. env_quiet) (\<lambda>k. 0) (\<lambda>k p. p) k
      (param_stuck sig, tv_nsec) = None"
proof (induction n arbitrary: sig k)
  case 0
  then have "sig = 100" by simp
  then show ?case
    unfolding watchdog_loop_step by (simp add: tick_stuck_break)
next
  case (Suc n)
  have lt: "sig < 100" using Suc.prems by simp
  have t: "watchdog_tick config_open env_quiet 0 (param_stuck sig, tv_nsec) =
     (False, param_stuck (sig + 1), tv_nsec)"
    using Suc.prems(1) lt by (rule tick_stuck_example)
  have ih: "watchdog_loop (Suc n) config_open (\<lambda>k. env_quiet) (\<lambda>k. 0) (\<lambda>k p. p) (Suc k)
      (param_stuck (sig + 1), tv_nsec) = Some (Suc k + n, param_stuck 100, tv_nsec) \<and>
   watchdog_loop n config_open (\<lambda>k. env_quiet) (\<lambda>k. 0) (\<lambda>k p. p) (Suc k)
      (param_stuck (sig + 1), tv_nsec) = None"
    using Suc.prems by (intro Suc.IH) simp_all
  have g1: "watchdog_loop (Suc (Suc n)) config_open (\<lambda>k. env_quiet) (\<lambda>k. 0) (\<lambda>k p. p) k
      (param_stuck sig, tv_nsec) =
     watchdog_loop (Suc n) config_open (\<lambda>k. env_quiet) (\<lambda>k. 0) (\<lambda>k p. p) (Suc k)
      (param_stuck (sig + 1), tv_nsec)"
    by (subst watchdog_loop_step) (simp only: t fst_conv snd_conv if_False)
  have g2: "watchdog_loop (Suc n) config_open (\<lambda>k. env_quiet) (\<lambda>k. 0) (\<lambda>k p. p) k
      (param_stuck sig, tv_nsec) =
     watchdog_loop n config_open (\<lambda>k. env_quiet) (\<lambda>k. 0) (\<lambda>k p. p) (Suc k)
      (param_stuck (sig + 1), tv_nsec)"
    by (subst watchdog_loop_step) (simp only: t fst_conv snd_conv if_False)
  show ?case
    unfolding g1 g2 using ih by (simp del: watchdog_loop.simps)
qed

lemma loop_shutdown_example:
  "watchdog_loop 99 config_open (\<lambda>k. env_quiet) (\<lambda>k. 0) (\<lambda>k p. p) 0
      (param_shutdown, 250000000) = Some (98, param_stuck 100, 100000000)"
  "watchdog_loop 98 config_open (\<lambda>k. env_quiet) (\<lambda>k. 0) (\<lambda>k p. p) 0
      (param_shutdown, 250000000) = None"
proof -
  have a: "(99::nat) = Suc (Suc 97)" and b: "(98::nat) = Suc 97" by simp_all
  have r: "watchdog_loop (Suc 97) config_open (\<lambda>k. env_quiet) (\<lambda>k. 0) (\<lambda>k p. p) (Suc 0)
      (param_stuck 3, 100000000) = Some (Suc 0 + 97, param_stuck 100, 100000000) \<and>
   watchdog_loop 97 config_open (\<lambda>k. env_quiet) (\<lambda>k. 0) (\<lambda>k p. p) (Suc 0)
      (param_stuck 3, 100000000) = None"
    by (rule loop_stuck_example) simp_all
  have g1: "watchdog_loop (Suc (Suc 97)) config_open (\<lambda>k. env_quiet) (\<lambda>k. 0) (\<lambda>k p. p) 0
      (param_shutdown, 250000000) =
     watchdog_loop (Suc 97) config_open (\<lambda>k. env_quiet) (\<lambda>k. 0) (\<lambda>k p. p) (Suc 0)
      (param_stuck 3, 100000000)"
    by (subst watchdog_loop_step) (simp only: tick_shutdown_example fst_conv snd_conv if_False)
  have g2: "watchdog_loop (Suc 97) config_open (\<lambda>k. env_quiet) (\<lambda>k. 0) (\<lambda>k p. p) 0
      (param_shutdown, 250000000) =
     watchdog_loop 97 config_open (\<lambda>k. env_quiet) (\<lambda>k. 0) (\<lambda>k p. p) (Suc 0)
      (param_stuck 3, 100000000)"
    by (subst watchdog_loop_step) (simp only: tick_shutdown_example fst_conv snd_conv if_False)
  show "watchdog_loop 99 config_open (\<lambda>k. env_quiet) (\<lambda>k. 0) (\<lambda>k p. p) 0
      (param_shutdown, 250000000) = Some (98, param_stuck 100, 100000000)"
    unfolding a g1 using r by (simp del: watchdog_loop.simps)
  show "watchdog_loop 98 config_open (\<lambda>k. env_quiet) (\<lambda>k. 0) (\<lambda>k p. p) 0
      (param_shutdown, 250000000) = None"
    unfolding b g2 using r by (simp del: watchdog_loop.simps)
qed

text \<open>
  Claim C7, as the program has it. In the pass of the watchdog loop that finds a
  shutdown requested (\<^verbatim>\<open>param.shutdownsig == 1\<close>): every listener whose socket descriptor
  is positive has the socket shut down and closed (the descriptor becomes -1), and the
  state of a listener's thread is left as it is; every other server thread that is
  running and not \<open>TDS_CLOSING\<close> or \<open>TDS_CLOSED\<close> gets the state \<open>TDS_CLOSE\<close>;
  every client thread not \<open>TDS_CLOSING\<close> or \<open>TDS_CLOSED\<close> gets the state
  \<open>TDS_CLOSE\<close>; the sleep time becomes 100 ms. If no further signal arrives, the loop
  is left in one of the first 99 passes, whatever the threads do.
\<close>

theorem shutdown_first_tick:
  assumes "shutdownsig param = 1"
  shows
  "sthreads (fst (shutdown_sequence (param, tv_nsec))) = map shutdown_sthread (sthreads param) \<and>
   cthreads (fst (shutdown_sequence (param, tv_nsec))) = map shutdown_cthread (cthreads param) \<and>
   (\<forall>stp :: sthread. stype stp = LISTEN_THREAD \<longrightarrow>
      lpp_socket (shutdown_sthread stp) = (if 0 < lpp_socket stp then - 1 else lpp_socket stp) \<and>
      std (shutdown_sthread stp) = std stp) \<and>
   (\<forall>(stp :: sthread) st. stype stp \<noteq> LISTEN_THREAD \<and> std stp = Some st \<longrightarrow>
      std (shutdown_sthread stp) =
        (if st = TDS_CLOSING \<or> st = TDS_CLOSED then Some st else Some TDS_CLOSE)) \<and>
   (\<forall>ctp :: cthread. td_state (shutdown_cthread ctp) =
      (if td_state ctp = TDS_CLOSING \<or> td_state ctp = TDS_CLOSED then td_state ctp
       else TDS_CLOSE)) \<and>
   snd (shutdown_sequence (param, tv_nsec)) = 100000000 \<and>
   snd (snd (watchdog_tick config (env 0) (clock 0) (param, tv_nsec))) = 100000000 \<and>
   ((\<forall>k p. shutdownsig (world k p) = shutdownsig p) \<longrightarrow>
      (\<exists>k st. watchdog_loop 99 config env clock world 0 (param, tv_nsec) = Some (k, st) \<and>
              k < 99))"
proof (intro conjI allI impI)
  show "sthreads (fst (shutdown_sequence (param, tv_nsec))) = map shutdown_sthread (sthreads param)"
    using assms by (simp add: shutdown_sequence_requested)
  show "cthreads (fst (shutdown_sequence (param, tv_nsec))) = map shutdown_cthread (cthreads param)"
    using assms by (simp add: shutdown_sequence_requested)
  show "snd (shutdown_sequence (param, tv_nsec)) = 100000000"
    using assms by (simp add: shutdown_sequence_requested)
  show "snd (snd (watchdog_tick config (env 0) (clock 0) (param, tv_nsec))) = 100000000"
    using assms by (rule watchdog_tick_first(2))
next
  fix stp :: sthread
  assume l: "stype stp = LISTEN_THREAD"
  show "lpp_socket (shutdown_sthread stp) = (if 0 < lpp_socket stp then - 1 else lpp_socket stp)"
    using shutdown_sthread_listen [OF l] by simp
  show "std (shutdown_sthread stp) = std stp"
    using shutdown_sthread_listen [OF l] by simp
next
  fix stp :: sthread and st
  assume "stype stp \<noteq> LISTEN_THREAD \<and> std stp = Some st"
  then show "std (shutdown_sthread stp) =
        (if st = TDS_CLOSING \<or> st = TDS_CLOSED then Some st else Some TDS_CLOSE)"
    using shutdown_sthread_other [of stp] by simp
next
  fix ctp :: cthread
  show "td_state (shutdown_cthread ctp) =
      (if td_state ctp = TDS_CLOSING \<or> td_state ctp = TDS_CLOSED then td_state ctp
       else TDS_CLOSE)"
    by (rule shutdown_cthread_state)
next
  assume "\<forall>k p. shutdownsig (world k p) = shutdownsig p"
  then have w: "\<And>k p. shutdownsig (world k p) = shutdownsig p" by simp
  show "\<exists>k st. watchdog_loop 99 config env clock world 0 (param, tv_nsec) = Some (k, st) \<and> k < 99"
    using w assms by (rule watchdog_loop_shutdown)
qed

theorem shutdown_first_tick_witness:
  "shutdownsig param_shutdown = 1 \<and>
   map stype (sthreads param_shutdown) = [LISTEN_THREAD, MSEEDSCAN_THREAD] \<and>
   map lpp_socket (sthreads (fst (shutdown_sequence (param_shutdown, 250000000)))) = [- 1, 0] \<and>
   map std (sthreads (fst (shutdown_sequence (param_shutdown, 250000000))))
     = [Some TDS_ACTIVE, Some TDS_CLOSE] \<and>
   map td_state (cthreads (fst (shutdown_sequence (param_shutdown, 250000000)))) = [TDS_CLOSE] \<and>
   snd (shutdown_sequence (param_shutdown, 250000000)) = 100000000 \<and>
   watchdog_loop 99 config_open (\<lambda>k. env_quiet) (\<lambda>k. 0) (\<lambda>k p. p) 0
      (param_shutdown, 250000000) = Some (98, param_stuck 100, 100000000) \<and>
   (98 :: nat) < 99"
proof -
  have s: "shutdownsig param_shutdown = 1"
    by (simp add: param_shutdown_def)
  have l: "sthreads param_shutdown =
       [\<lparr> stype = LISTEN_THREAD, lpp_socket = 5, std = Some TDS_ACTIVE \<rparr>,
        \<lparr> stype = MSEEDSCAN_THREAD, lpp_socket = 0, std = Some TDS_ACTIVE \<rparr>]"
    "cthreads param_shutdown = [client_heard 2 0]"
    by (simp_all add: param_shutdown_def)
  have h: "td_state (client_heard 2 0) = TDS_ACTIVE"
    by (simp add: client_heard_def)
  show ?thesis
    using shutdown_first_tick [OF s, where tv_nsec = 250000000 and config = config_open
        and env = "\<lambda>k. env_quiet" and clock = "\<lambda>k. 0" and world = "\<lambda>k p. p"]
    by (simp add: s l h loop_shutdown_example shutdown_sthread_def shutdown_cthread_def)
qed

text \<open>
  The claim as it was stated has the state \<open>TDS_CLOSE\<close> set on every server thread
  that is not \<open>TDS_CLOSING\<close> or \<open>TDS_CLOSED\<close>. A listener's thread is not marked:
  its socket is closed instead, and after the pass its state is still \<open>TDS_ACTIVE\<close>.
\<close>

theorem shutdown_listener_not_marked:
  "stype (hd (sthreads param_shutdown)) = LISTEN_THREAD \<and>
   std (hd (sthreads param_shutdown)) = Some TDS_ACTIVE \<and>
   shutdownsig param_shutdown = 1 \<and>
   map std (sthreads (fst (shutdown_sequence (param_shutdown, 250000000))))
     = [Some TDS_ACTIVE, Some TDS_CLOSE] \<and>
   map std (sthreads (fst (snd (watchdog_tick config_open env_quiet 0
       (param_shutdown, 250000000))))) = [Some TDS_ACTIVE, Some TDS_CLOSE]"
proof -
  have t: "map std (sthreads (fst (snd (watchdog_tick config_open env_quiet 0
       (param_shutdown, 250000000))))) = [Some TDS_ACTIVE, Some TDS_CLOSE]"
    unfolding tick_shutdown_example by (simp add: param_stuck_def)
  show ?thesis
    unfolding t
    by (simp add: shutdown_sequence_def shutdown_sthread_def param_shutdown_def)
qed

subsection \<open>Facts about the start\<close>

lemma decimal_digit: "n < 10 \<Longrightarrow> decimal n = [''0123456789'' ! n]"
  by (simp add: decimal.simps)

lemma decimal_examples:
  "decimal 1 = ''1''" "decimal (Suc 0) = ''1''" "decimal (nat 1) = ''1''"
  "decimal 2 = ''2''" "decimal (nat 2) = ''2''"
  by (simp_all add: decimal_digit)

lemma config_examples:
  "ringdir config_open = Some ''ring''" "volatilering config_open = False"
  "autorecovery config_open = 1"
  "ringdir config_delete = Some ''ring''" "volatilering config_delete = False"
  "autorecovery config_delete = 2"
  by (simp_all add: config_open_def config_delete_def)

lemma file_examples:
  "ringfilename config_open = ''ring/packetbuf''" "streamfilename config_open = ''ring/streamidx''"
  "ringfilename config_delete = ''ring/packetbuf''" "streamfilename config_delete = ''ring/streamidx''"
  by (simp_all add: ringfilename_def streamfilename_def config_examples)

lemma start_examples:
  "main_ring_init config_open (env_start 1) =
     (Ring_ready,
      [Ev_RingInitialize,
       Ev_rename ''ring/packetbuf'' ''ring/packetbuf.version1'',
       Ev_rename ''ring/streamidx'' ''ring/streamidx.version1'',
       Ev_RingInitialize,
       Ev_LoadBufferV1 ''ring/packetbuf.version1'',
       Ev_unlink ''ring/packetbuf.version1'', Ev_unlink ''ring/streamidx.version1''])"
  "main_ring_init config_open (env_start 2) =
     (Exit 1,
      [Ev_RingInitialize,
       Ev_rename ''ring/packetbuf'' ''ring/packetbuf.version2'',
       Ev_rename ''ring/streamidx'' ''ring/streamidx.version2'',
       Ev_RingInitialize])"
  "main_ring_init config_delete (env_start 1) =
     (Ring_ready,
      [Ev_RingInitialize, Ev_unlink ''ring/packetbuf'', Ev_unlink ''ring/streamidx'',
       Ev_RingInitialize])"
  "main_ring_init config_open (env_start (- 1)) =
     (Ring_ready,
      [Ev_RingInitialize,
       Ev_rename ''ring/packetbuf'' ''ring/packetbuf.corrupt'',
       Ev_rename ''ring/streamidx'' ''ring/streamidx.corrupt'',
       Ev_RingInitialize])"
  by (simp_all add: main_ring_init_def ring_reinit_def Let_def file_examples decimal_examples
      env_start_def config_examples)

lemma env_start_first: "ringinit_first (env_start r) = r"
  by (simp add: env_start_def)

lemma main_ring_init_version:
  assumes "ringdir config \<noteq> None \<or> volatilering config"
    and "autorecovery config = 1" and "0 < ringinit_first env"
    and "\<not> rename_fails env (ringfilename config)
        (ringfilename config @ ''.version'' @ decimal (nat (ringinit_first env)))"
    and "\<not> rename_fails env (streamfilename config)
        (streamfilename config @ ''.version'' @ decimal (nat (ringinit_first env)))"
  shows "main_ring_init config env =
     ring_reinit config env
       (Ev_RingInitialize # (if 0 < ringfd_first env then [Ev_close_ringfd] else []) @
        [Ev_rename (ringfilename config)
           (ringfilename config @ ''.version'' @ decimal (nat (ringinit_first env))),
         Ev_rename (streamfilename config)
           (streamfilename config @ ''.version'' @ decimal (nat (ringinit_first env)))])
       (ringfilename config @ ''.version'' @ decimal (nat (ringinit_first env)))
       (streamfilename config @ ''.version'' @ decimal (nat (ringinit_first env)))
       (nat (ringinit_first env mod 65536))"
proof -
  have n: "ringinit_first env \<noteq> 0" "ringinit_first env \<noteq> - 2" "ringinit_first env \<noteq> - 1"
    using assms(3) by simp_all
  show ?thesis
    unfolding main_ring_init_def Let_def
    using assms n by simp
qed

lemma ring_reinit_v1:
  assumes "autorecovery config = 1"
  shows "ring_reinit config env evs rb sb (Suc 0) =
     (if ringinit_second env \<noteq> 0 then (Exit 1, evs @ [Ev_RingInitialize])
      else if loaded_packets env < 0
        then (Ring_ready, evs @ [Ev_RingInitialize, Ev_LoadBufferV1 rb])
      else if unlink_fails env rb
        then (Exit 1, evs @ [Ev_RingInitialize, Ev_LoadBufferV1 rb, Ev_unlink rb])
      else if unlink_fails env sb
        then (Exit 1, evs @ [Ev_RingInitialize, Ev_LoadBufferV1 rb, Ev_unlink rb, Ev_unlink sb])
      else (Ring_ready, evs @ [Ev_RingInitialize, Ev_LoadBufferV1 rb, Ev_unlink rb, Ev_unlink sb]))"
  using assms by (simp add: ring_reinit_def not_le)

lemma ring_reinit_unsupported:
  assumes "autorecovery config = 1" "1 < cv"
  shows "ring_reinit config env evs rb sb cv = (Exit 1, evs @ [Ev_RingInitialize])"
  using assms by (simp add: ring_reinit_def)

text \<open>
  Claim C4, as the program has it. The ring directory being set (or the ring volatile):
  a first initialisation that returns -2, or anything but 0 with auto recovery off,
  ends the start with exit status 1 and nothing else done. With auto recovery 1, a
  result of -1 renames both ring files to \<^verbatim>\<open>.corrupt\<close> siblings and a positive version
  \<open>v\<close> (below 65536) renames them to \<^verbatim>\<open>.version<v>\<close> siblings; with auto recovery 2
  any result but 0 and -2 deletes both files; when these file operations succeed the
  ring is initialised a second time, and a failure of the second initialisation ends the
  start with exit status 1. After a successful second initialisation in mode 1: for
  version 1 the version-1 loader is run on the backup of the packet buffer, and the two
  backup files are deleted when it does not report an error (when it does, they are kept
  and the start goes on); any other version ends the start with exit status 1. In mode 2
  no loader is run.
\<close>

theorem auto_recovery_protocol:
  assumes "ringdir config \<noteq> None \<or> volatilering config"
  shows
  "(ringinit_first env = - 2 \<or> (ringinit_first env \<noteq> 0 \<and> autorecovery config = 0) \<longrightarrow>
      main_ring_init config env = (Exit 1, [Ev_RingInitialize])) \<and>
   (autorecovery config = 1 \<and> ringinit_first env = - 1 \<and>
    \<not> rename_fails env (ringfilename config) (ringfilename config @ ''.corrupt'') \<and>
    \<not> rename_fails env (streamfilename config) (streamfilename config @ ''.corrupt'') \<longrightarrow>
      main_ring_init config env =
        (if ringinit_second env \<noteq> 0 then Exit 1 else Ring_ready,
         Ev_RingInitialize # (if 0 < ringfd_first env then [Ev_close_ringfd] else []) @
         [Ev_rename (ringfilename config) (ringfilename config @ ''.corrupt''),
          Ev_rename (streamfilename config) (streamfilename config @ ''.corrupt''),
          Ev_RingInitialize])) \<and>
   (autorecovery config = 1 \<and> 0 < ringinit_first env \<and> ringinit_first env < 65536 \<and>
    \<not> rename_fails env (ringfilename config)
        (ringfilename config @ ''.version'' @ decimal (nat (ringinit_first env))) \<and>
    \<not> rename_fails env (streamfilename config)
        (streamfilename config @ ''.version'' @ decimal (nat (ringinit_first env))) \<longrightarrow>
      main_ring_init config env =
        (let rb = ringfilename config @ ''.version'' @ decimal (nat (ringinit_first env));
             sb = streamfilename config @ ''.version'' @ decimal (nat (ringinit_first env));
             evs = Ev_RingInitialize # (if 0 < ringfd_first env then [Ev_close_ringfd] else []) @
                   [Ev_rename (ringfilename config) rb, Ev_rename (streamfilename config) sb]
         in if ringinit_second env \<noteq> 0 then (Exit 1, evs @ [Ev_RingInitialize])
            else if ringinit_first env \<noteq> 1 then (Exit 1, evs @ [Ev_RingInitialize])
            else if loaded_packets env < 0
              then (Ring_ready, evs @ [Ev_RingInitialize, Ev_LoadBufferV1 rb])
            else if unlink_fails env rb
              then (Exit 1, evs @ [Ev_RingInitialize, Ev_LoadBufferV1 rb, Ev_unlink rb])
            else if unlink_fails env sb
              then (Exit 1, evs @ [Ev_RingInitialize, Ev_LoadBufferV1 rb, Ev_unlink rb,
                                   Ev_unlink sb])
            else (Ring_ready, evs @ [Ev_RingInitialize, Ev_LoadBufferV1 rb, Ev_unlink rb,
                                     Ev_unlink sb]))) \<and>
   (autorecovery config = 2 \<and> ringinit_first env \<noteq> 0 \<and> ringinit_first env \<noteq> - 2 \<and>
    \<not> unlink_fails env (ringfilename config) \<and> \<not> unlink_fails env (streamfilename config) \<longrightarrow>
      main_ring_init config env =
        (if ringinit_second env \<noteq> 0 then Exit 1 else Ring_ready,
         Ev_RingInitialize # (if 0 < ringfd_first env then [Ev_close_ringfd] else []) @
         [Ev_unlink (ringfilename config), Ev_unlink (streamfilename config),
          Ev_RingInitialize]))"
proof (intro conjI impI)
  assume "ringinit_first env = - 2 \<or> (ringinit_first env \<noteq> 0 \<and> autorecovery config = 0)"
  then show "main_ring_init config env = (Exit 1, [Ev_RingInitialize])"
    using assms by (auto simp: main_ring_init_def Let_def)
next
  assume a: "autorecovery config = 1 \<and> ringinit_first env = - 1 \<and>
    \<not> rename_fails env (ringfilename config) (ringfilename config @ ''.corrupt'') \<and>
    \<not> rename_fails env (streamfilename config) (streamfilename config @ ''.corrupt'')"
  show "main_ring_init config env =
        (if ringinit_second env \<noteq> 0 then Exit 1 else Ring_ready,
         Ev_RingInitialize # (if 0 < ringfd_first env then [Ev_close_ringfd] else []) @
         [Ev_rename (ringfilename config) (ringfilename config @ ''.corrupt''),
          Ev_rename (streamfilename config) (streamfilename config @ ''.corrupt''),
          Ev_RingInitialize])"
    using assms a by (simp add: main_ring_init_def ring_reinit_def Let_def)
next
  assume a: "autorecovery config = 1 \<and> 0 < ringinit_first env \<and> ringinit_first env < 65536 \<and>
    \<not> rename_fails env (ringfilename config)
        (ringfilename config @ ''.version'' @ decimal (nat (ringinit_first env))) \<and>
    \<not> rename_fails env (streamfilename config)
        (streamfilename config @ ''.version'' @ decimal (nat (ringinit_first env)))"
  then have m: "ringinit_first env mod 65536 = ringinit_first env"
    by simp
  define rb where "rb = ringfilename config @ ''.version'' @ decimal (nat (ringinit_first env))"
  define sb where "sb = streamfilename config @ ''.version'' @ decimal (nat (ringinit_first env))"
  define evs where
    "evs = Ev_RingInitialize # (if 0 < ringfd_first env then [Ev_close_ringfd] else []) @
           [Ev_rename (ringfilename config) rb, Ev_rename (streamfilename config) sb]"
  have i: "main_ring_init config env =
             ring_reinit config env evs rb sb (nat (ringinit_first env))"
    unfolding rb_def sb_def evs_def
    using main_ring_init_version [of config env] assms a m by simp
  have r: "main_ring_init config env =
     (if ringinit_second env \<noteq> 0 then (Exit 1, evs @ [Ev_RingInitialize])
      else if ringinit_first env \<noteq> 1 then (Exit 1, evs @ [Ev_RingInitialize])
      else if loaded_packets env < 0
        then (Ring_ready, evs @ [Ev_RingInitialize, Ev_LoadBufferV1 rb])
      else if unlink_fails env rb
        then (Exit 1, evs @ [Ev_RingInitialize, Ev_LoadBufferV1 rb, Ev_unlink rb])
      else if unlink_fails env sb
        then (Exit 1, evs @ [Ev_RingInitialize, Ev_LoadBufferV1 rb, Ev_unlink rb,
                             Ev_unlink sb])
      else (Ring_ready, evs @ [Ev_RingInitialize, Ev_LoadBufferV1 rb, Ev_unlink rb,
                               Ev_unlink sb]))"
  proof (cases "ringinit_first env = 1")
    case True
    then have cv: "nat (ringinit_first env) = Suc 0" by simp
    have one: "autorecovery config = 1" using a by simp
    show ?thesis
      unfolding i cv ring_reinit_v1 [OF one] using True by simp
  next
    case False
    then have cv: "1 < nat (ringinit_first env)" using a by auto
    have one: "autorecovery config = 1" using a by simp
    show ?thesis
      unfolding i ring_reinit_unsupported [OF one cv] using False by simp
  qed
  show "main_ring_init config env =
        (let rb = ringfilename config @ ''.version'' @ decimal (nat (ringinit_first env));
             sb = streamfilename config @ ''.version'' @ decimal (nat (ringinit_first env));
             evs = Ev_RingInitialize # (if 0 < ringfd_first env then [Ev_close_ringfd] else []) @
                   [Ev_rename (ringfilename config) rb, Ev_rename (streamfilename config) sb]
         in if ringinit_second env \<noteq> 0 then (Exit 1, evs @ [Ev_RingInitialize])
            else if ringinit_first env \<noteq> 1 then (Exit 1, evs @ [Ev_RingInitialize])
            else if loaded_packets env < 0
              then (Ring_ready, evs @ [Ev_RingInitialize, Ev_LoadBufferV1 rb])
            else if unlink_fails env rb
              then (Exit 1, evs @ [Ev_RingInitialize, Ev_LoadBufferV1 rb, Ev_unlink rb])
            else if unlink_fails env sb
              then (Exit 1, evs @ [Ev_RingInitialize, Ev_LoadBufferV1 rb, Ev_unlink rb,
                                   Ev_unlink sb])
            else (Ring_ready, evs @ [Ev_RingInitialize, Ev_LoadBufferV1 rb, Ev_unlink rb,
                                     Ev_unlink sb]))"
    unfolding Let_def r rb_def sb_def evs_def by simp
next
  assume a: "autorecovery config = 2 \<and> ringinit_first env \<noteq> 0 \<and> ringinit_first env \<noteq> - 2 \<and>
    \<not> unlink_fails env (ringfilename config) \<and> \<not> unlink_fails env (streamfilename config)"
  show "main_ring_init config env =
        (if ringinit_second env \<noteq> 0 then Exit 1 else Ring_ready,
         Ev_RingInitialize # (if 0 < ringfd_first env then [Ev_close_ringfd] else []) @
         [Ev_unlink (ringfilename config), Ev_unlink (streamfilename config),
          Ev_RingInitialize])"
    using assms a by (simp add: main_ring_init_def ring_reinit_def Let_def)
qed

theorem auto_recovery_protocol_witness:
  "ringdir config_open = Some ''ring'' \<and> ringdir config_delete = Some ''ring'' \<and>
   autorecovery config_open = 1 \<and> autorecovery config_delete = 2 \<and>
   main_ring_init config_open (env_start (- 2)) = (Exit 1, [Ev_RingInitialize]) \<and>
   main_ring_init config_open (env_start (- 1)) =
     (Ring_ready,
      [Ev_RingInitialize,
       Ev_rename ''ring/packetbuf'' ''ring/packetbuf.corrupt'',
       Ev_rename ''ring/streamidx'' ''ring/streamidx.corrupt'',
       Ev_RingInitialize]) \<and>
   main_ring_init config_open (env_start 1) =
     (Ring_ready,
      [Ev_RingInitialize,
       Ev_rename ''ring/packetbuf'' ''ring/packetbuf.version1'',
       Ev_rename ''ring/streamidx'' ''ring/streamidx.version1'',
       Ev_RingInitialize,
       Ev_LoadBufferV1 ''ring/packetbuf.version1'',
       Ev_unlink ''ring/packetbuf.version1'', Ev_unlink ''ring/streamidx.version1'']) \<and>
   main_ring_init config_delete (env_start (- 1)) =
     (Ring_ready,
      [Ev_RingInitialize, Ev_unlink ''ring/packetbuf'', Ev_unlink ''ring/streamidx'',
       Ev_RingInitialize])"
proof -
  have c: "ringdir config_open \<noteq> None \<or> volatilering config_open"
    and d: "ringdir config_delete \<noteq> None \<or> volatilering config_delete"
    by (simp_all add: config_examples)
  have e: "ringinit_first (env_start r) = r" "ringfd_first (env_start r) = 0"
    "rename_fails (env_start r) = (\<lambda>a b. False)" "unlink_fails (env_start r) = (\<lambda>a. False)"
    "ringinit_second (env_start r) = 0" "loaded_packets (env_start r) = 42" for r
    by (simp_all add: env_start_def)
  show ?thesis
    using auto_recovery_protocol [OF c, of "env_start (- 2)"]
      auto_recovery_protocol [OF c, of "env_start (- 1)"]
      auto_recovery_protocol [OF c, of "env_start 1"]
      auto_recovery_protocol [OF d, of "env_start (- 1)"]
    by (simp add: e config_examples file_examples decimal_examples Let_def)
qed

text \<open>
  The claim as it was stated has the version-1 converter replay the backup and the
  backup files deleted on every positive version. With auto recovery 2 and version 1
  the files are deleted, the ring is initialised again and no converter is run; with
  auto recovery 1 and version 2 the files are renamed, the ring is initialised again
  and the start then ends with exit status 1, no converter having run.
\<close>

theorem recovery_without_conversion:
  "ringinit_first (env_start 1) = 1 \<and> autorecovery config_delete = 2 \<and>
   main_ring_init config_delete (env_start 1) =
     (Ring_ready,
      [Ev_RingInitialize, Ev_unlink ''ring/packetbuf'', Ev_unlink ''ring/streamidx'',
       Ev_RingInitialize]) \<and>
   ringinit_first (env_start 2) = 2 \<and> autorecovery config_open = 1 \<and>
   main_ring_init config_open (env_start 2) =
     (Exit 1,
      [Ev_RingInitialize,
       Ev_rename ''ring/packetbuf'' ''ring/packetbuf.version2'',
       Ev_rename ''ring/streamidx'' ''ring/streamidx.version2'',
       Ev_RingInitialize])"
  by (simp add: start_examples config_examples env_start_first)

subsection \<open>Facts about the statistics\<close>

lemma int64_id:
  assumes "- (2 ^ 63) \<le> i" "i < 2 ^ 63"
  shows "int64 i = i"
proof -
  have "0 \<le> i + 2 ^ 63" "i + 2 ^ 63 < 2 ^ 64" using assms by simp_all
  then have "(i + 2 ^ 63) mod 2 ^ 64 = i + 2 ^ 63" by (rule mod_pos_pos_trivial)
  then show ?thesis by (simp add: int64_def)
qed

lemma percentlag_CalcStats:
  "percentlag (CalcStats_cinfo RINGID_MAXIMUM ringparams nsnow cinfo) =
     (case reader cinfo of
        None \<Rightarrow> Some 0
      | Some rd \<Rightarrow>
          if pktid rd \<le> RINGID_MAXIMUM then
            d_to_int
              (d_mul
                 (d_div
                    (d_of_int
                       (int64
                          ((if latestoffset ringparams < earliestoffset ringparams
                            then int64 (latestoffset ringparams + maxoffset ringparams)
                            else latestoffset ringparams) -
                           (if pktoffset rd < earliestoffset ringparams
                            then int64 (pktoffset rd + maxoffset ringparams)
                            else pktoffset rd))))
                    (d_of_int
                       (int64
                          ((if latestoffset ringparams < earliestoffset ringparams
                            then int64 (latestoffset ringparams + maxoffset ringparams)
                            else latestoffset ringparams) -
                           earliestoffset ringparams))))
                 (d_of_int 100))
          else Some 0)"
  by (simp add: CalcStats_cinfo_def Let_def split: option.splits)

lemma percent_examples:
  "d_to_int (d_mul (d_div (d_of_int 200) (d_of_int 400)) (d_of_int 100)) = Some 50"
  "d_to_int (d_mul (d_div (d_of_int 150) (d_of_int 950)) (d_of_int 100)) = Some 15"
  "d_to_int (d_mul (d_div (d_of_int 29) (d_of_int 100)) (d_of_int 100)) = Some 28"
  "d_to_int (d_mul (d_div (d_of_int (- 550)) (d_of_int 400)) (d_of_int 100)) = Some (- 137)"
  "d_to_int (d_mul (d_div (d_of_int 0) (d_of_int 0)) (d_of_int 100)) = None"
  by (code_simp+)

lemma reader_examples:
  "reader (client_reading off) = Some \<lparr> pktid = 7, pktoffset = off \<rparr>"
  "reader (new_ClientInfo config paddr now) = None"
  by (simp_all add: client_reading_def new_ClientInfo_def)

lemma percentlag_examples:
  "percentlag (CalcStats_cinfo 1000 ring_plain 0 (client_reading 300)) = Some 50"
  "percentlag (CalcStats_cinfo 1000 ring_wrapped 0 (client_reading 900)) = Some 15"
  "percentlag (CalcStats_cinfo 1000 ring_hundred 0 (client_reading 71)) = Some 28"
  "percentlag (CalcStats_cinfo 5 ring_plain 0 (client_reading 300)) = Some 0"
  "percentlag (CalcStats_cinfo 1000 ring_plain 0 (new_ClientInfo config_open addr_10_0_0_1 0))
     = Some 0"
  "percentlag (CalcStats_cinfo 1000 ring_plain 0 (client_reading 50)) = Some (- 137)"
  "percentlag (CalcStats_cinfo 1000 ring_single 0 (client_reading 4096)) = None"
  by (simp_all add: percentlag_CalcStats reader_examples int64_def percent_examples
      ring_plain_def ring_wrapped_def ring_single_def ring_hundred_def)

text \<open>
  Claim C2. The specification has the percent lag between 0 and 100 whenever the reader
  has a valid position. \<^verbatim>\<open>CalcStats\<close> divides by the distance from the earliest to the
  latest offset without a test: when the ring holds a single packet and the reader is
  on it, the program divides 0.0 by 0.0 and converts the result, which is not a number,
  to \<^verbatim>\<open>int\<close>; C leaves that conversion undefined. A reader whose offset lies outside the
  span from the earliest to the latest packet gets a lag outside the range as well.
\<close>

theorem percentlag_single_packet:
  "reader (client_reading 4096) = Some \<lparr> pktid = 7, pktoffset = 4096 \<rparr> \<and>
   percentlag (CalcStats_cinfo 1000 ring_single 0 (client_reading 4096)) = None \<and>
   percentlag (CalcStats_cinfo 1000 ring_plain 0 (client_reading 50)) = Some (- 137)"
  by (simp add: percentlag_examples reader_examples)

subsection \<open>Facts about the rounding\<close>

lemma pow2_power_int: "pow2 k = power_int 2 k"
  by (simp add: pow2_def power_int_def inverse_eq_divide power_one_over)

lemma pow2_pos: "0 < pow2 k"
  by (simp add: pow2_def)

lemma pow2_add: "pow2 (a + b) = pow2 a * pow2 b"
  by (simp add: pow2_power_int power_int_add)

lemma pow2_mono: "a \<le> b \<Longrightarrow> pow2 a \<le> pow2 b"
  by (simp add: pow2_power_int power_int_increasing)

lemma pow2_strict_mono: "a < b \<Longrightarrow> pow2 a < pow2 b"
  by (simp add: pow2_power_int power_int_strict_increasing)

lemma pow2_le_iff: "pow2 a \<le> pow2 b \<longleftrightarrow> a \<le> b"
  using pow2_mono [of a b] pow2_strict_mono [of b a] by (auto simp: not_le [symmetric])

lemma pow2_nat: "0 \<le> k \<Longrightarrow> pow2 k = 2 ^ nat k"
  by (simp add: pow2_def)

lemma pow2_0: "pow2 0 = 1"
  by (simp add: pow2_def)

text \<open>The binary exponent.\<close>

lemma bitlen_pow2_bounds:
  assumes "0 < p"
  shows "pow2 (bitlen p - 1) \<le> of_int p" and "of_int p < pow2 (bitlen p)"
proof -
  have b: "2 ^ nat (bitlen p - 1) \<le> p \<and> p < 2 ^ nat (bitlen p)"
    using bitlen_bounds [OF assms] .
  have g: "1 \<le> bitlen p"
    using assms bitlen_eq_zero_iff [of p] bitlen_nonneg [of p] by (cases "bitlen p = 0") auto
  have "(of_int (2 ^ nat (bitlen p - 1)) :: rat) \<le> of_int p"
    using b by (simp only: of_int_le_iff)
  then show "pow2 (bitlen p - 1) \<le> of_int p"
    using g by (simp add: pow2_nat)
  have "(of_int p :: rat) < of_int (2 ^ nat (bitlen p))"
    using b by (simp only: of_int_less_iff)
  then show "of_int p < pow2 (bitlen p)"
    using g by (simp add: pow2_nat)
qed

lemma ilog2_bounds:
  assumes "0 < x"
  shows "pow2 (ilog2 x) \<le> x" and "x < pow2 (ilog2 x + 1)"
proof -
  obtain p q where pq: "quotient_of x = (p, q)" by (cases "quotient_of x")
  have q: "0 < q" using pq by (rule quotient_of_denom_pos)
  have x: "x = of_int p / of_int q" using pq by (rule quotient_of_div)
  have p: "0 < p"
    using assms q unfolding x by (simp add: zero_less_divide_iff)
  define k where "k = bitlen p - bitlen q"
  have e: "ilog2 x = (if pow2 k \<le> x then k else k - 1)"
    by (simp add: ilog2_def pq k_def Let_def)
  note bp = bitlen_pow2_bounds [OF p] and bq = bitlen_pow2_bounds [OF q]
  have qpos: "(0::rat) < of_int q" using q by simp
  have up: "x < pow2 (k + 1)"
  proof -
    have "of_int p < pow2 (bitlen p)" by (rule bp(2))
    also have "pow2 (bitlen p) = pow2 (k + 1) * pow2 (bitlen q - 1)"
      by (simp add: pow2_add [symmetric] k_def)
    also have "\<dots> \<le> pow2 (k + 1) * of_int q"
      using bq(1) pow2_pos [of "k + 1"] by (simp add: mult_left_mono less_imp_le)
    finally have "of_int p < pow2 (k + 1) * of_int q" .
    then show ?thesis
      unfolding x using qpos by (simp add: pos_divide_less_eq)
  qed
  have lo: "pow2 (k - 1) \<le> x"
  proof -
    have "pow2 (k - 1) * of_int q \<le> pow2 (k - 1) * pow2 (bitlen q)"
      using bq(2) pow2_pos [of "k - 1"] by (simp add: mult_left_mono less_imp_le)
    also have "\<dots> = pow2 (bitlen p - 1)"
      by (simp add: pow2_add [symmetric] k_def)
    also have "\<dots> \<le> of_int p" by (rule bp(1))
    finally have "pow2 (k - 1) * of_int q \<le> of_int p" .
    then show ?thesis
      unfolding x using qpos by (simp add: pos_le_divide_eq)
  qed
  show "pow2 (ilog2 x) \<le> x"
    using lo by (simp add: e)
  show "x < pow2 (ilog2 x + 1)"
    using up by (simp add: e not_le)
qed

lemma ilog2_ge:
  assumes "pow2 k \<le> x"
  shows "k \<le> ilog2 x"
proof -
  have "0 < x" using assms pow2_pos [of k] by simp
  then have "x < pow2 (ilog2 x + 1)" by (rule ilog2_bounds(2))
  then have "pow2 k < pow2 (ilog2 x + 1)" using assms by simp
  then have "k < ilog2 x + 1"
    using pow2_mono [of "ilog2 x + 1" k] by (cases "k < ilog2 x + 1") auto
  then show ?thesis by simp
qed

text \<open>Rounding to nearest.\<close>

lemma round_even_ge: "x - 1 / 2 \<le> of_int (round_even x)"
proof -
  have "of_int \<lfloor>x\<rfloor> \<le> x" "x < of_int \<lfloor>x\<rfloor> + 1" by linarith+
  then show ?thesis
    by (auto simp: round_even_def Let_def)
qed

lemma round_even_pos:
  assumes "1 \<le> x"
  shows "0 < round_even x"
proof -
  have "(0::rat) < x - 1 / 2" using assms by simp
  also have "\<dots> \<le> of_int (round_even x)" by (rule round_even_ge)
  finally show ?thesis by simp
qed

text \<open>
  A value at or above the least normal magnitude is not rounded to zero: the result is
  an infinity, or a finite value of the same sign and of magnitude at least
  \<open>2 ^ ilog2 \<bar>x\<bar>\<close>.
\<close>

lemma to_double_normal:
  assumes "pow2 (- 1022) \<le> \<bar>x\<bar>"
  shows "to_double x = PInf \<or> to_double x = NInf \<or>
         (\<exists>r. to_double x = Finite r \<and> pow2 (ilog2 \<bar>x\<bar>) \<le> \<bar>r\<bar>)"
proof -
  have x0: "x \<noteq> 0" using assms pow2_pos [of "- 1022"] by auto
  then have ax: "0 < \<bar>x\<bar>" by simp
  define e where "e = ilog2 \<bar>x\<bar>"
  define u where "u = pow2 (e - 52)"
  define m where "m = round_even (\<bar>x\<bar> / u)"
  have e1: "- 1022 \<le> e" unfolding e_def using assms by (rule ilog2_ge)
  then have mx: "max e (- 1022) = e" by simp
  have upos: "0 < u" unfolding u_def by (rule pow2_pos)
  have "pow2 e \<le> \<bar>x\<bar>" unfolding e_def using ax by (rule ilog2_bounds(1))
  moreover have "pow2 e = pow2 52 * u"
    unfolding u_def by (simp add: pow2_add [symmetric])
  ultimately have "pow2 52 * u \<le> \<bar>x\<bar>" by simp
  then have big: "pow2 52 \<le> \<bar>x\<bar> / u"
    using upos by (simp add: pos_le_divide_eq)
  have "\<bar>x\<bar> / u - 1 / 2 \<le> of_int m" unfolding m_def by (rule round_even_ge)
  then have m52: "pow2 52 - 1 / 2 \<le> of_int m" using big by simp
  have p52: "pow2 52 = 4503599627370496" by (simp add: pow2_def)
  have "(4503599627370496::rat) - 1 / 2 \<le> of_int m" using m52 p52 by simp
  then have "(4503599627370495::rat) < of_int m" by simp
  then have "(of_int 4503599627370495 :: rat) < of_int m" by simp
  then have "4503599627370495 < m" by (simp only: of_int_less_iff)
  then have mge: "4503599627370496 \<le> m" by simp
  then have mpos: "0 < m" by simp
  have fin: "\<bar>sgn x * of_int m * u\<bar> = of_int m * u"
    using x0 mpos upos by (simp add: abs_mult abs_sgn_eq)
  have "pow2 e = pow2 52 * u"
    unfolding u_def by (simp add: pow2_add [symmetric])
  also have "\<dots> \<le> of_int m * u"
  proof -
    have "pow2 52 \<le> (of_int m :: rat)"
      unfolding p52 using mge by (simp only: of_int_le_iff [symmetric, where 'a = rat])
    then show ?thesis using upos by (simp add: mult_right_mono less_imp_le)
  qed
  finally have low: "pow2 e \<le> \<bar>sgn x * of_int m * u\<bar>" unfolding fin .
  have td: "to_double x =
     (if 1024 \<le> e then (if 0 < x then PInf else NInf)
      else if e = 1023 \<and> m = 2 ^ 53 then (if 0 < x then PInf else NInf)
      else Finite (sgn x * of_int m * u))"
    using x0 by (simp add: to_double_def Let_def e_def [symmetric] mx u_def [symmetric]
        m_def [symmetric])
  show ?thesis
    unfolding td e_def [symmetric] using low by auto
qed

lemma to_double_not_NaN: "to_double x \<noteq> NaN"
  by (simp add: to_double_def Let_def)

lemma to_double_nonzero:
  assumes "pow2 (- 1022) \<le> \<bar>x\<bar>"
  shows "to_double x \<noteq> Finite 0"
proof
  assume z: "to_double x = Finite 0"
  have "0 < pow2 (ilog2 \<bar>x\<bar>)" by (rule pow2_pos)
  then show False
    using to_double_normal [OF assms] z by auto
qed

lemma d_of_int_nonzero:
  assumes "i \<noteq> 0"
  shows "d_of_int i = PInf \<or> d_of_int i = NInf \<or> (\<exists>r. d_of_int i = Finite r \<and> 1 \<le> \<bar>r\<bar>)"
proof -
  have one: "(1::rat) \<le> \<bar>of_int i\<bar>"
    using assms by (simp add: of_int_abs [symmetric] del: of_int_abs)
  have "pow2 (- 1022) \<le> pow2 0" by (rule pow2_mono) simp
  then have n: "pow2 (- 1022) \<le> \<bar>of_int i :: rat\<bar>" using one by (simp add: pow2_0)
  have "pow2 0 \<le> \<bar>of_int i :: rat\<bar>" using one by (simp add: pow2_0)
  then have "0 \<le> ilog2 \<bar>of_int i\<bar>" by (rule ilog2_ge)
  then have "pow2 0 \<le> pow2 (ilog2 \<bar>of_int i\<bar>)" by (rule pow2_mono)
  then have l: "1 \<le> pow2 (ilog2 \<bar>of_int i\<bar>)" by (simp add: pow2_0)
  show ?thesis
    unfolding d_of_int_def using to_double_normal [OF n] l by auto
qed

lemma d_of_int_NSTMODULUS: "d_of_int NSTMODULUS = Finite 1000000000"
  unfolding NSTMODULUS_def by code_simp

text \<open>The elapsed time in seconds is neither zero nor undefined when the clock moved.\<close>

lemma deltasec_nonzero:
  assumes "i \<noteq> 0"
  shows "d_div (d_of_int i) (d_of_int NSTMODULUS) \<noteq> Finite 0"
    and "d_div (d_of_int i) (d_of_int NSTMODULUS) \<noteq> NaN"
proof -
  consider "d_of_int i = PInf" | "d_of_int i = NInf"
    | r where "d_of_int i = Finite r" "1 \<le> \<bar>r\<bar>"
    using d_of_int_nonzero [OF assms] by blast
  then have "d_div (d_of_int i) (d_of_int NSTMODULUS) \<noteq> Finite 0 \<and>
             d_div (d_of_int i) (d_of_int NSTMODULUS) \<noteq> NaN"
  proof cases
    case 1
    then show ?thesis by (simp add: d_of_int_NSTMODULUS)
  next
    case 2
    then show ?thesis by (simp add: d_of_int_NSTMODULUS)
  next
    case 3
    have "pow2 (- 1022) \<le> 1 / 1000000000"
      by (simp add: pow2_def)
    also have "\<dots> \<le> \<bar>r\<bar> / 1000000000" using 3(2) by simp
    finally have "pow2 (- 1022) \<le> \<bar>r / 1000000000\<bar>" by simp
    then have "to_double (r / 1000000000) \<noteq> Finite 0"
      by (rule to_double_nonzero)
    then show ?thesis
      using 3(1) by (simp add: d_of_int_NSTMODULUS to_double_not_NaN)
  qed
  then show "d_div (d_of_int i) (d_of_int NSTMODULUS) \<noteq> Finite 0"
    and "d_div (d_of_int i) (d_of_int NSTMODULUS) \<noteq> NaN" by simp_all
qed

lemma d_div_zero:
  assumes "y \<noteq> Finite 0" "y \<noteq> NaN"
  shows "d_div (Finite 0) y = Finite 0"
  using assms by (cases y) (simp_all add: to_double_def)

subsection \<open>The error of one rounding\<close>

lemma ilog2_less:
  assumes "0 < x" "x < pow2 k"
  shows "ilog2 x < k"
proof -
  have "pow2 (ilog2 x) \<le> x" using assms(1) by (rule ilog2_bounds(1))
  then have "pow2 (ilog2 x) < pow2 k" using assms(2) by simp
  then show ?thesis
    using pow2_mono [of k "ilog2 x"] by (cases "ilog2 x < k") auto
qed

lemma round_even_le: "of_int (round_even x) \<le> x + 1 / 2"
proof -
  define f where "f = \<lfloor>x\<rfloor>"
  have a: "of_int f \<le> x" "x < of_int f + 1" unfolding f_def by linarith+
  show ?thesis
    unfolding round_even_def Let_def f_def [symmetric] using a by auto
qed

lemma round_even_of_int: "round_even (of_int n) = n"
  by (simp add: round_even_def)

text \<open>
  A positive value in the range of the normal numbers is rounded to a finite value, with a
  relative error of at most \<open>2 ^ - 53\<close>.
\<close>

lemma to_double_error:
  assumes "pow2 (- 1022) \<le> x" "x < pow2 1023"
  shows "\<exists>y. to_double x = Finite y \<and> \<bar>y - x\<bar> \<le> x * pow2 (- 53)"
proof -
  have xpos: "0 < x" using assms(1) pow2_pos [of "- 1022"] by simp
  then have ax: "\<bar>x\<bar> = x" and sx: "sgn x = 1" and x0: "x \<noteq> 0" by simp_all
  define e where "e = ilog2 x"
  define u where "u = pow2 (e - 52)"
  define m where "m = round_even (x / u)"
  have e1: "- 1022 \<le> e" unfolding e_def using assms(1) by (rule ilog2_ge)
  then have mx: "max e (- 1022) = e" by simp
  have e2: "e < 1023" unfolding e_def using xpos assms(2) by (rule ilog2_less)
  have upos: "0 < u" unfolding u_def by (rule pow2_pos)
  have td: "to_double x = Finite (of_int m * u)"
    using x0 e2 by (simp add: to_double_def Let_def ax sx e_def [symmetric] mx
        u_def [symmetric] m_def [symmetric])
  have lo: "x / u - 1 / 2 \<le> of_int m" unfolding m_def by (rule round_even_ge)
  have hi: "of_int m \<le> x / u + 1 / 2" unfolding m_def by (rule round_even_le)
  have xl: "(x / u - 1 / 2) * u = x - u / 2" and xh: "(x / u + 1 / 2) * u = x + u / 2"
    using upos by (simp_all add: field_simps)
  have "(x / u - 1 / 2) * u \<le> of_int m * u"
    using lo upos by (simp only: mult_right_mono less_imp_le)
  then have lo': "x - u / 2 \<le> of_int m * u"
    unfolding xl .
  have "of_int m * u \<le> (x / u + 1 / 2) * u"
    using hi upos by (simp only: mult_right_mono less_imp_le)
  then have hi': "of_int m * u \<le> x + u / 2"
    unfolding xh .
  have d: "\<bar>of_int m * u - x\<bar> \<le> u / 2"
    using lo' hi' by linarith
  have "pow2 e = u * pow2 52"
    unfolding u_def by (simp add: pow2_add [symmetric])
  moreover have "pow2 52 * pow2 (- 53) = 1 / 2"
    by (simp add: pow2_def)
  ultimately have "pow2 e * pow2 (- 53) = u / 2"
    by simp
  moreover have "pow2 e \<le> x" unfolding e_def using xpos by (rule ilog2_bounds(1))
  then have "pow2 e * pow2 (- 53) \<le> x * pow2 (- 53)"
    using pow2_pos [of "- 53"] by (simp only: mult_right_mono less_imp_le)
  ultimately have "u / 2 \<le> x * pow2 (- 53)" by simp
  then have "\<bar>of_int m * u - x\<bar> \<le> x * pow2 (- 53)" using d by simp
  then show ?thesis using td by simp
qed

text \<open>An integer of magnitude below \<open>2 ^ 53\<close> is converted exactly.\<close>

lemma d_of_int_exact:
  assumes "\<bar>i\<bar> < 2 ^ 53"
  shows "d_of_int i = Finite (of_int i)"
proof (cases "i = 0")
  case True
  then show ?thesis by (simp add: d_of_int_def to_double_def)
next
  case False
  define x :: rat where "x = of_int i"
  have x0: "x \<noteq> 0" using False by (simp add: x_def)
  have ax: "\<bar>x\<bar> = of_int \<bar>i\<bar>" by (simp add: x_def)
  have "1 \<le> \<bar>i\<bar>" using False by simp
  then have "(of_int 1 :: rat) \<le> of_int \<bar>i\<bar>" by (simp only: of_int_le_iff)
  then have one: "pow2 0 \<le> \<bar>x\<bar>" by (simp add: ax pow2_0)
  have "(of_int \<bar>i\<bar> :: rat) < of_int (2 ^ 53)" using assms by (simp only: of_int_less_iff)
  then have lt: "\<bar>x\<bar> < pow2 53" by (simp add: ax pow2_def)
  define e where "e = ilog2 \<bar>x\<bar>"
  have e0: "0 \<le> e" unfolding e_def using one by (rule ilog2_ge)
  have e53: "e < 53" unfolding e_def using x0 lt by (intro ilog2_less) simp_all
  have mx: "max e (- 1022) = e" using e0 by simp
  define u where "u = pow2 (e - 52)"
  define n where "n = \<bar>i\<bar> * 2 ^ nat (52 - e)"
  have upos: "0 < u" unfolding u_def by (rule pow2_pos)
  have "pow2 (52 - e) * u = 1"
    unfolding u_def by (simp add: pow2_add [symmetric] pow2_0)
  then have inv: "1 / u = pow2 (52 - e)"
    using upos by (simp add: field_simps)
  have "pow2 (52 - e) = 2 ^ nat (52 - e)" using e53 by (simp add: pow2_nat)
  then have p: "1 / u = 2 ^ nat (52 - e)" using inv by simp
  have "\<bar>x\<bar> / u = \<bar>x\<bar> * (1 / u)" by simp
  also have "\<dots> = of_int \<bar>i\<bar> * 2 ^ nat (52 - e)" unfolding p ax ..
  also have "\<dots> = of_int n" by (simp add: n_def)
  finally have q: "\<bar>x\<bar> / u = of_int n" .
  have m: "round_even (\<bar>x\<bar> / u) = n" unfolding q by (rule round_even_of_int)
  have "of_int n * u = \<bar>x\<bar>"
    using q upos by (simp add: field_simps)
  then have v: "sgn x * of_int n * u = x"
    by (simp add: mult.assoc sgn_mult_abs)
  have "to_double x = Finite (sgn x * of_int n * u)"
    using x0 e53 e0 by (simp add: to_double_def Let_def e_def [symmetric] mx u_def [symmetric] m)
  then show ?thesis
    unfolding d_of_int_def x_def [symmetric] v .
qed

text \<open>
  The percentage of a distance \<open>a\<close> in a span \<open>b\<close> below \<open>2 ^ 44\<close>, as the program computes
  it (division and multiplication in double precision, conversion to \<^verbatim>\<open>int\<close>), against
  the exact quotient \<open>100 * a / b\<close>: the result is the integer part of the quotient, or
  one less when the quotient is a whole number.
\<close>

lemma percent_near:
  assumes a0: "0 \<le> a" and ab: "a \<le> b" and b0: "0 < b" and bb: "b < 2 ^ 44"
  shows "\<exists>k. d_to_int (d_mul (d_div (d_of_int a) (d_of_int b)) (d_of_int 100)) = Some k \<and>
             of_int k \<le> 100 * of_int a / (of_int b :: rat) \<and>
             100 * of_int a / (of_int b :: rat) \<le> of_int k + 1 \<and> 0 \<le> k \<and> k \<le> 100"
proof -
  have ea: "d_of_int a = Finite (of_int a)"
    using a0 ab bb by (intro d_of_int_exact) simp
  have eb: "d_of_int b = Finite (of_int b)"
    using b0 bb by (intro d_of_int_exact) simp
  have e100: "d_of_int 100 = Finite 100"
    using d_of_int_exact [of 100] by simp
  define A :: rat where "A = of_int a"
  define B :: rat where "B = of_int b"
  have A0: "0 \<le> A" using a0 by (simp add: A_def)
  have B0: "0 < B" using b0 by (simp add: B_def)
  have AB: "A \<le> B" using ab by (simp add: A_def B_def)
  have "(of_int b :: rat) < of_int (2 ^ 44)" using bb by (simp only: of_int_less_iff)
  then have Bb: "B < 17592186044416" by (simp add: B_def)
  have dv: "d_div (d_of_int a) (d_of_int b) = to_double (A / B)"
    using B0 by (simp add: ea eb A_def B_def)
  show ?thesis
  proof (cases "a = 0")
    case True
    have "d_to_int (d_mul (d_div (d_of_int a) (d_of_int b)) (d_of_int 100)) = Some 0"
      unfolding dv e100 using True by (simp add: A_def to_double_def)
    then show ?thesis using True by simp
  next
    case False
    then have "1 \<le> a" using a0 by simp
    then have "(of_int 1 :: rat) \<le> of_int a" by (simp only: of_int_le_iff)
    then have A1: "1 \<le> A" by (simp add: A_def)
    define eps :: rat where "eps = pow2 (- 53)"
    have eps: "eps = 1 / 9007199254740992" by (simp add: eps_def pow2_def)
    define d :: rat where "d = 1 / B"
    have d1: "1 / 17592186044416 < d"
      unfolding d_def using B0 Bb by (simp add: field_simps)
    have small: "300 * eps < d" using d1 by (simp add: eps)
    define x1 where "x1 = A / B"
    have x1lo: "d \<le> x1"
      unfolding d_def x1_def using A1 B0 by (simp add: divide_right_mono)
    have x1hi: "x1 \<le> 1"
      unfolding x1_def using AB B0 by simp
    have n44: "pow2 (- 1022) \<le> 1 / 17592186044416"
    proof -
      have "pow2 (- 1022) \<le> pow2 (- 44)" by (rule pow2_mono) simp
      also have "pow2 (- 44) = 1 / 17592186044416" by (simp add: pow2_def)
      finally show ?thesis .
    qed
    have p7: "256 \<le> pow2 1023"
    proof -
      have "pow2 8 \<le> pow2 1023" by (rule pow2_mono) simp
      moreover have "pow2 8 = 256" by (simp add: pow2_def)
      ultimately show ?thesis by simp
    qed
    have "pow2 (- 1022) \<le> x1" using n44 d1 x1lo by linarith
    moreover have "x1 < pow2 1023" using x1hi p7 by linarith
    ultimately obtain y1 where y1: "to_double x1 = Finite y1"
      and r1: "\<bar>y1 - x1\<bar> \<le> x1 * eps"
      unfolding eps_def using to_double_error [of x1] by blast
    have x1e: "x1 * eps \<le> eps" and x1e0: "0 \<le> x1 * eps"
      using x1hi x1lo d1 by (simp_all add: eps mult_le_cancel_right1)
    have half: "x1 * eps \<le> x1 / 2"
      using x1lo d1 by (simp add: eps)
    have y1lo: "x1 / 2 \<le> y1" using r1 half by linarith
    have e1: "\<bar>y1 - x1\<bar> \<le> eps" using r1 x1e by linarith
    have eps1: "eps \<le> 1" by (simp add: eps)
    have y1hi: "y1 \<le> 2" using e1 x1hi eps1 by linarith
    define x2 where "x2 = y1 * 100"
    have x2lo: "50 * d \<le> x2" using y1lo x1lo by (simp add: x2_def)
    have x2hi: "x2 \<le> 200" using y1hi by (simp add: x2_def)
    have "pow2 (- 1022) \<le> x2" using n44 d1 x2lo by linarith
    moreover have "x2 < pow2 1023" using x2hi p7 by linarith
    ultimately obtain y2 where y2: "to_double x2 = Finite y2"
      and r2: "\<bar>y2 - x2\<bar> \<le> x2 * eps"
      unfolding eps_def using to_double_error [of x2] by blast
    have "x2 * eps \<le> 200 * eps"
      using x2hi by (simp add: eps)
    then have e2: "\<bar>y2 - x2\<bar> \<le> 200 * eps" using r2 by linarith
    define E where "E = 100 * A / B"
    have E: "E = 100 * x1" by (simp add: E_def x1_def)
    have "x2 - E = 100 * y1 - 100 * x1"
      unfolding x2_def E by simp
    moreover have "y1 - x1 \<le> eps" "- eps \<le> y1 - x1" using e1 by linarith+
    ultimately have "x2 - E \<le> 100 * eps" "- (100 * eps) \<le> x2 - E" by linarith+
    then have e3: "\<bar>x2 - E\<bar> \<le> 100 * eps" by linarith
    have near: "\<bar>y2 - E\<bar> < d" using e2 e3 small by linarith
    have Elo: "100 * d \<le> E" using x1lo by (simp add: E)
    have Ehi: "E \<le> 100" using x1hi by (simp add: E)
    have y2pos: "0 < y2" using near Elo d1 by linarith
    define k where "k = \<lfloor>y2\<rfloor>"
    have kf: "of_int k \<le> y2" "y2 < of_int k + 1" unfolding k_def by linarith+
    have res: "d_to_int (d_mul (d_div (d_of_int a) (d_of_int b)) (d_of_int 100)) =
               (if - (2 ^ 31) \<le> k \<and> k < 2 ^ 31 then Some k else None)"
      unfolding dv e100 x1_def [symmetric] y1 using y2pos
      by (simp add: x2_def [symmetric] y2 k_def)
    have dB: "d * B = 1" unfolding d_def using B0 by simp
    have EB: "E * B = 100 * A" unfolding E_def using B0 by simp
    have low: "of_int k \<le> E"
    proof (rule ccontr)
      assume "\<not> of_int k \<le> E"
      then have "E * B < of_int k * B" using B0 by simp
      then have "100 * A < of_int k * B" unfolding EB .
      then have "(of_int (100 * a) :: rat) < of_int (k * b)" by (simp add: A_def B_def)
      then have "100 * a < k * b" by (simp only: of_int_less_iff)
      then have "100 * a + 1 \<le> k * b" by simp
      then have "(of_int (100 * a + 1) :: rat) \<le> of_int (k * b)" by (simp only: of_int_le_iff)
      then have "100 * A + 1 \<le> of_int k * B" by (simp add: A_def B_def)
      then have "(E + d) * B \<le> of_int k * B" by (simp add: distrib_right EB dB)
      then have "E + d \<le> of_int k" using B0 by simp
      then show False using kf near by linarith
    qed
    have up: "E \<le> of_int k + 1"
    proof (rule ccontr)
      assume "\<not> E \<le> of_int k + 1"
      then have "(of_int k + 1) * B < E * B" using B0 by simp
      then have "(of_int k + 1) * B < 100 * A" unfolding EB .
      then have "(of_int ((k + 1) * b) :: rat) < of_int (100 * a)" by (simp add: A_def B_def)
      then have "(k + 1) * b < 100 * a" by (simp only: of_int_less_iff)
      then have "(k + 1) * b + 1 \<le> 100 * a" by simp
      then have "(of_int ((k + 1) * b + 1) :: rat) \<le> of_int (100 * a)"
        by (simp only: of_int_le_iff)
      then have "(of_int k + 1) * B + 1 \<le> 100 * A" by (simp add: A_def B_def)
      then have "(of_int k + 1 + d) * B \<le> E * B"
        by (simp add: distrib_right EB dB)
      then have "of_int k + 1 + d \<le> E" using B0 by simp
      then show False using kf near by linarith
    qed
    have "(0::rat) < of_int k + 1" using kf(2) y2pos by linarith
    then have "(of_int 0 :: rat) < of_int (k + 1)" by simp
    then have "0 < k + 1" by (simp only: of_int_less_iff)
    then have k0: "0 \<le> k" by simp
    have "(of_int k :: rat) \<le> of_int 100" using low Ehi by simp
    then have k100: "k \<le> 100" by (simp only: of_int_le_iff)
    have "d_to_int (d_mul (d_div (d_of_int a) (d_of_int b)) (d_of_int 100)) = Some k"
      unfolding res using k0 k100 by simp
    then show ?thesis
      using low up k0 k100 unfolding E_def A_def B_def by blast
  qed
qed

subsection \<open>The percent lag and the exact quotient\<close>

lemma spec_percentlag_examples:
  "spec_percentlag ring_plain 300 = 50"
  "spec_percentlag ring_wrapped 900 = 300 / 19"
  "spec_percentlag ring_hundred 71 = 29"
  by (simp_all add: spec_percentlag_def spec_unwrap_def ring_plain_def ring_wrapped_def
      ring_hundred_def)

text \<open>
  The lag of a reader inside a ring of less than \<open>2 ^ 43\<close> bytes that holds more than one
  packet.
\<close>

lemma percentlag_in_ring:
  assumes rd: "reader cinfo = Some rd" and valid: "pktid rd \<le> RINGID_MAXIMUM"
    and e: "0 \<le> earliestoffset rp" "earliestoffset rp \<le> maxoffset rp"
    and l: "0 \<le> latestoffset rp" "latestoffset rp \<le> maxoffset rp"
    and r: "0 \<le> pktoffset rd" "pktoffset rd \<le> maxoffset rp"
    and m: "maxoffset rp < 2 ^ 43"
    and ne: "spec_unwrap rp (latestoffset rp) \<noteq> earliestoffset rp"
    and le: "spec_unwrap rp (pktoffset rd) \<le> spec_unwrap rp (latestoffset rp)"
  shows "\<exists>k. percentlag (CalcStats_cinfo RINGID_MAXIMUM rp nsnow cinfo) = Some k \<and>
             of_int k \<le> spec_percentlag rp (pktoffset rd) \<and>
             spec_percentlag rp (pktoffset rd) \<le> of_int k + 1 \<and> 0 \<le> k \<and> k \<le> 100"
proof -
  define lu where "lu = spec_unwrap rp (latestoffset rp)"
  define ru where "ru = spec_unwrap rp (pktoffset rd)"
  define a where "a = lu - ru"
  define b where "b = lu - earliestoffset rp"
  have m': "maxoffset rp < 8796093022208" using m by simp
  have lu1: "earliestoffset rp \<le> lu" and lu2: "lu < 17592186044416" and lu0: "0 \<le> lu"
    unfolding lu_def spec_unwrap_def using e l m' by (simp_all split: if_splits)
  have ru1: "earliestoffset rp \<le> ru" and ru2: "ru < 17592186044416" and ru0: "0 \<le> ru"
    unfolding ru_def spec_unwrap_def using e r m' by (simp_all split: if_splits)
  have a0: "0 \<le> a" using le by (simp add: a_def lu_def ru_def)
  have ab: "a \<le> b" using ru1 by (simp add: a_def b_def)
  have b0: "0 < b" using ne lu1 by (simp add: b_def lu_def)
  have b1: "b < 17592186044416" using lu2 e(1) by (simp add: b_def)
  then have bb: "b < 2 ^ 44" by simp
  have wl: "(if latestoffset rp < earliestoffset rp
             then int64 (latestoffset rp + maxoffset rp) else latestoffset rp) = lu"
  proof -
    have "int64 (latestoffset rp + maxoffset rp) = latestoffset rp + maxoffset rp"
      using l m' by (intro int64_id) simp_all
    then show ?thesis by (simp add: lu_def spec_unwrap_def)
  qed
  have wr: "(if pktoffset rd < earliestoffset rp
             then int64 (pktoffset rd + maxoffset rp) else pktoffset rd) = ru"
  proof -
    have "int64 (pktoffset rd + maxoffset rp) = pktoffset rd + maxoffset rp"
      using r m' by (intro int64_id) simp_all
    then show ?thesis by (simp add: ru_def spec_unwrap_def)
  qed
  have wa: "int64 (lu - ru) = a"
    unfolding a_def using lu0 lu2 ru0 ru2 by (intro int64_id) simp_all
  have wb: "int64 (lu - earliestoffset rp) = b"
    unfolding b_def using lu0 lu2 e(1) lu1 by (intro int64_id) simp_all
  have p: "percentlag (CalcStats_cinfo RINGID_MAXIMUM rp nsnow cinfo) =
           d_to_int (d_mul (d_div (d_of_int a) (d_of_int b)) (d_of_int 100))"
    by (simp only: percentlag_CalcStats rd option.case valid if_True wl wr wa wb)
  have s: "spec_percentlag rp (pktoffset rd) = 100 * of_int a / of_int b"
    by (simp add: spec_percentlag_def a_def b_def lu_def ru_def)
  show ?thesis
    unfolding p s using a0 ab b0 bb by (rule percent_near)
qed

text \<open>
  Claim C5, as the program has it. When the reader is absent or its packet id is beyond
  \<^verbatim>\<open>RINGID_MAXIMUM\<close>, \<^verbatim>\<open>CalcStats\<close> reports a percent lag of exactly 0. Otherwise, for
  offsets between 0 and the ring's max offset, a max offset below \<open>2 ^ 43\<close>, a ring that
  holds more than one packet and a reader that is not beyond the latest packet, the
  program unwraps the latest offset and the reader offset as the specification says
  (adding the max offset exactly when the value is less than the earliest offset) and
  reports an integer \<open>k\<close> from 0 to 100 with
  \<open>k \<le> 100 * (latest - reader) / (latest - earliest) \<le> k + 1\<close> on the unwrapped values:
  the integer part of the exact quotient, or one less than the quotient when the quotient
  is a whole number. The lag is computed in double precision and cut to an \<^verbatim>\<open>int\<close>, so
  the exact quotient itself is not always what is reported.
\<close>

theorem CalcStats_percentlag_near_spec:
  "(reader cinfo = None \<longrightarrow>
      percentlag (CalcStats_cinfo RINGID_MAXIMUM rp nsnow cinfo) = Some 0) \<and>
   (\<forall>rd. reader cinfo = Some rd \<and> RINGID_MAXIMUM < pktid rd \<longrightarrow>
      percentlag (CalcStats_cinfo RINGID_MAXIMUM rp nsnow cinfo) = Some 0) \<and>
   (\<forall>rd. reader cinfo = Some rd \<and> pktid rd \<le> RINGID_MAXIMUM \<and>
      0 \<le> earliestoffset rp \<and> earliestoffset rp \<le> maxoffset rp \<and>
      0 \<le> latestoffset rp \<and> latestoffset rp \<le> maxoffset rp \<and>
      0 \<le> pktoffset rd \<and> pktoffset rd \<le> maxoffset rp \<and>
      maxoffset rp < 2 ^ 43 \<and>
      spec_unwrap rp (latestoffset rp) \<noteq> earliestoffset rp \<and>
      spec_unwrap rp (pktoffset rd) \<le> spec_unwrap rp (latestoffset rp) \<longrightarrow>
      (\<exists>k. percentlag (CalcStats_cinfo RINGID_MAXIMUM rp nsnow cinfo) = Some k \<and>
           of_int k \<le> spec_percentlag rp (pktoffset rd) \<and>
           spec_percentlag rp (pktoffset rd) \<le> of_int k + 1 \<and> 0 \<le> k \<and> k \<le> 100))"
proof (intro conjI allI impI)
  assume "reader cinfo = None"
  then show "percentlag (CalcStats_cinfo RINGID_MAXIMUM rp nsnow cinfo) = Some 0"
    by (simp add: percentlag_CalcStats)
next
  fix rd
  assume "reader cinfo = Some rd \<and> RINGID_MAXIMUM < pktid rd"
  then show "percentlag (CalcStats_cinfo RINGID_MAXIMUM rp nsnow cinfo) = Some 0"
    by (simp add: percentlag_CalcStats)
next
  fix rd
  assume h: "reader cinfo = Some rd \<and> pktid rd \<le> RINGID_MAXIMUM \<and>
      0 \<le> earliestoffset rp \<and> earliestoffset rp \<le> maxoffset rp \<and>
      0 \<le> latestoffset rp \<and> latestoffset rp \<le> maxoffset rp \<and>
      0 \<le> pktoffset rd \<and> pktoffset rd \<le> maxoffset rp \<and>
      maxoffset rp < 2 ^ 43 \<and>
      spec_unwrap rp (latestoffset rp) \<noteq> earliestoffset rp \<and>
      spec_unwrap rp (pktoffset rd) \<le> spec_unwrap rp (latestoffset rp)"
  show "\<exists>k. percentlag (CalcStats_cinfo RINGID_MAXIMUM rp nsnow cinfo) = Some k \<and>
           of_int k \<le> spec_percentlag rp (pktoffset rd) \<and>
           spec_percentlag rp (pktoffset rd) \<le> of_int k + 1 \<and> 0 \<le> k \<and> k \<le> 100"
    by (rule percentlag_in_ring) (use h in blast)+
qed

theorem CalcStats_percentlag_near_spec_witness:
  "reader (client_reading 900) = Some \<lparr> pktid = 7, pktoffset = 900 \<rparr> \<and>
   earliestoffset ring_wrapped = 100 \<and> latestoffset ring_wrapped = 50 \<and>
   maxoffset ring_wrapped = 1000 \<and>
   spec_unwrap ring_wrapped 50 = 1050 \<and> spec_unwrap ring_wrapped 900 = 900 \<and>
   percentlag (CalcStats_cinfo 1000 ring_wrapped 0 (client_reading 900)) = Some 15 \<and>
   spec_percentlag ring_wrapped 900 = 300 / 19 \<and>
   of_int 15 \<le> spec_percentlag ring_wrapped 900 \<and>
   spec_percentlag ring_wrapped 900 \<le> of_int 15 + 1 \<and>
   percentlag (CalcStats_cinfo 1000 ring_plain 0 (client_reading 300)) = Some 50 \<and>
   spec_percentlag ring_plain 300 = 50 \<and>
   percentlag (CalcStats_cinfo 5 ring_plain 0 (client_reading 300)) = Some 0 \<and>
   percentlag (CalcStats_cinfo 1000 ring_plain 0 (new_ClientInfo config_open addr_10_0_0_1 0))
     = Some 0"
proof -
  have f: "earliestoffset ring_wrapped = 100" "latestoffset ring_wrapped = 50"
    "maxoffset ring_wrapped = 1000"
    "spec_unwrap ring_wrapped 50 = 1050" "spec_unwrap ring_wrapped 900 = 900"
    by (simp_all add: ring_wrapped_def spec_unwrap_def)
  show ?thesis
    using CalcStats_percentlag_near_spec [of "client_reading 900" 1000 ring_wrapped 0]
      CalcStats_percentlag_near_spec [of "client_reading 300" 1000 ring_plain 0]
      CalcStats_percentlag_near_spec [of "client_reading 300" 5 ring_plain 0]
      CalcStats_percentlag_near_spec
        [of "new_ClientInfo config_open addr_10_0_0_1 0" 1000 ring_plain 0]
    by (simp add: percentlag_examples spec_percentlag_examples reader_examples f)
qed

text \<open>
  The claim as it was stated has the program report \<open>100 * (latest - reader) /
  (latest - earliest)\<close>. In a ring from offset 0 to offset 100 a reader at offset 71 is
  29 hundredths behind: the quotient is 29, and the program reports 28, because
  \<open>29.0 / 100\<close> is rounded to a double just below 0.29 and the product with 100, just
  below 29, is cut to an \<^verbatim>\<open>int\<close>.
\<close>

theorem percentlag_not_exact:
  "reader (client_reading 71) = Some \<lparr> pktid = 7, pktoffset = 71 \<rparr> \<and>
   percentlag (CalcStats_cinfo 1000 ring_hundred 0 (client_reading 71)) = Some 28 \<and>
   spec_percentlag ring_hundred 71 = 29"
  by (simp add: percentlag_examples spec_percentlag_examples reader_examples)

subsection \<open>Facts about the rates\<close>

lemma CalcStats_ratetime:
  "ratetime (CalcStats_cinfo R rp now cinfo) = now"
  by (simp add: CalcStats_cinfo_def Let_def)

lemma CalcStats_tx:
  "txpackets (CalcStats_cinfo R rp now cinfo) =
     (if 0 < fst (txpackets cinfo) then (fst (txpackets cinfo), fst (txpackets cinfo))
      else txpackets cinfo)"
  "txbytes (CalcStats_cinfo R rp now cinfo) =
     (if 0 < fst (txpackets cinfo) then (fst (txbytes cinfo), fst (txbytes cinfo))
      else txbytes cinfo)"
  "txpacketrate (CalcStats_cinfo R rp now cinfo) =
     (if 0 < fst (txpackets cinfo) then
        d_div (d_of_int (uint (fst (txpackets cinfo) - snd (txpackets cinfo))))
          (if ratetime cinfo = 0 then Finite 1
           else d_div (d_of_int (now - ratetime cinfo)) (d_of_int NSTMODULUS))
      else txpacketrate cinfo)"
  "txbyterate (CalcStats_cinfo R rp now cinfo) =
     (if 0 < fst (txpackets cinfo) then
        d_div (d_of_int (uint (fst (txbytes cinfo) - snd (txbytes cinfo))))
          (if ratetime cinfo = 0 then Finite 1
           else d_div (d_of_int (now - ratetime cinfo)) (d_of_int NSTMODULUS))
      else txbyterate cinfo)"
  by (simp_all add: CalcStats_cinfo_def Let_def)

lemma CalcStats_rx:
  "rxpackets (CalcStats_cinfo R rp now cinfo) =
     (if 0 < fst (rxpackets cinfo) then (fst (rxpackets cinfo), fst (rxpackets cinfo))
      else rxpackets cinfo)"
  "rxbytes (CalcStats_cinfo R rp now cinfo) =
     (if 0 < fst (rxpackets cinfo) then (fst (rxbytes cinfo), fst (rxbytes cinfo))
      else rxbytes cinfo)"
  "rxpacketrate (CalcStats_cinfo R rp now cinfo) =
     (if 0 < fst (rxpackets cinfo) then
        d_div (d_of_int (uint (fst (rxpackets cinfo) - snd (rxpackets cinfo))))
          (if ratetime cinfo = 0 then Finite 1
           else d_div (d_of_int (now - ratetime cinfo)) (d_of_int NSTMODULUS))
      else rxpacketrate cinfo)"
  "rxbyterate (CalcStats_cinfo R rp now cinfo) =
     (if 0 < fst (rxpackets cinfo) then
        d_div (d_of_int (uint (fst (rxbytes cinfo) - snd (rxbytes cinfo))))
          (if ratetime cinfo = 0 then Finite 1
           else d_div (d_of_int (now - ratetime cinfo)) (d_of_int NSTMODULUS))
      else rxbyterate cinfo)"
  by (simp_all add: CalcStats_cinfo_def Let_def)

text \<open>
  The rate of a counter that equals its history value, after an elapsed time that is
  1.0 (no time stamp yet) or belongs to a clock that has moved.
\<close>

lemma rate_unchanged_counter:
  assumes "rt = 0 \<or> now \<noteq> rt"
  shows "d_div (d_of_int (uint (w - w)))
           (if rt = 0 then Finite 1 else d_div (d_of_int (now - rt)) (d_of_int NSTMODULUS))
         = Finite 0"
proof -
  have z: "d_of_int 0 = Finite 0"
    by (simp add: d_of_int_def to_double_def)
  show ?thesis
  proof (cases "rt = 0")
    case True
    then show ?thesis by (simp add: z to_double_def)
  next
    case False
    then have "now - rt \<noteq> 0" using assms by simp
    then show ?thesis
      using False deltasec_nonzero [of "now - rt"]
      by (simp add: z d_div_zero)
  qed
qed

lemma tx_rates_unchanged_counters:
  assumes "0 < fst (txpackets cinfo)"
    and "txpackets c' = txpackets (CalcStats_cinfo R rp now cinfo)"
    and "txbytes c' = txbytes (CalcStats_cinfo R rp now cinfo)"
    and "ratetime c' = ratetime (CalcStats_cinfo R rp now cinfo)"
    and "now = 0 \<or> now' \<noteq> now"
  shows "txpacketrate (CalcStats_cinfo R' rp' now' c') = Finite 0"
    and "txbyterate (CalcStats_cinfo R' rp' now' c') = Finite 0"
proof -
  have p: "txpackets c' = (fst (txpackets cinfo), fst (txpackets cinfo))"
    and b: "txbytes c' = (fst (txbytes cinfo), fst (txbytes cinfo))"
    and r: "ratetime c' = now"
    using assms(1-4) by (simp_all add: CalcStats_tx CalcStats_ratetime)
  have t: "now = 0 \<or> now' \<noteq> now" by (rule assms(5))
  show "txpacketrate (CalcStats_cinfo R' rp' now' c') = Finite 0"
    unfolding CalcStats_tx p b r
    using assms(1) rate_unchanged_counter [OF t, of "fst (txpackets cinfo)"] by simp
  show "txbyterate (CalcStats_cinfo R' rp' now' c') = Finite 0"
    unfolding CalcStats_tx p b r
    using assms(1) rate_unchanged_counter [OF t, of "fst (txbytes cinfo)"] by simp
qed

lemma rx_rates_unchanged_counters:
  assumes "0 < fst (rxpackets cinfo)"
    and "rxpackets c' = rxpackets (CalcStats_cinfo R rp now cinfo)"
    and "rxbytes c' = rxbytes (CalcStats_cinfo R rp now cinfo)"
    and "ratetime c' = ratetime (CalcStats_cinfo R rp now cinfo)"
    and "now = 0 \<or> now' \<noteq> now"
  shows "rxpacketrate (CalcStats_cinfo R' rp' now' c') = Finite 0"
    and "rxbyterate (CalcStats_cinfo R' rp' now' c') = Finite 0"
proof -
  have p: "rxpackets c' = (fst (rxpackets cinfo), fst (rxpackets cinfo))"
    and b: "rxbytes c' = (fst (rxbytes cinfo), fst (rxbytes cinfo))"
    and r: "ratetime c' = now"
    using assms(1-4) by (simp_all add: CalcStats_rx CalcStats_ratetime)
  have t: "now = 0 \<or> now' \<noteq> now" by (rule assms(5))
  show "rxpacketrate (CalcStats_cinfo R' rp' now' c') = Finite 0"
    unfolding CalcStats_rx p b r
    using assms(1) rate_unchanged_counter [OF t, of "fst (rxpackets cinfo)"] by simp
  show "rxbyterate (CalcStats_cinfo R' rp' now' c') = Finite 0"
    unfolding CalcStats_rx p b r
    using assms(1) rate_unchanged_counter [OF t, of "fst (rxbytes cinfo)"] by simp
qed

text \<open>
  A client record starts with all counters and rates 0, and \<^verbatim>\<open>CalcStats\<close> writes the
  rates of a direction only when the packet counter of the direction is positive: a
  direction without packets has its rates at 0, and \<^verbatim>\<open>CalcStats\<close> keeps it so.
\<close>

lemma new_ClientInfo_rates:
  "txpacketrate (new_ClientInfo config paddr now) = Finite 0"
  "txbyterate (new_ClientInfo config paddr now) = Finite 0"
  "rxpacketrate (new_ClientInfo config paddr now) = Finite 0"
  "rxbyterate (new_ClientInfo config paddr now) = Finite 0"
  by (simp_all add: new_ClientInfo_def)

lemma CalcStats_keeps_idle_rates:
  assumes "fst (txpackets cinfo) = 0 \<Longrightarrow>
             txpacketrate cinfo = Finite 0 \<and> txbyterate cinfo = Finite 0"
    and "fst (txpackets (CalcStats_cinfo R rp now cinfo)) = 0"
  shows "txpacketrate (CalcStats_cinfo R rp now cinfo) = Finite 0"
    and "txbyterate (CalcStats_cinfo R rp now cinfo) = Finite 0"
  using assms by (simp_all add: CalcStats_tx split: if_splits)

text \<open>
  Two calls of \<^verbatim>\<open>CalcStats\<close> without a change of the counters in between, the second
  at another reading of the clock than the first: all four rates are 0.
\<close>

lemma rates_zero_once_clock_moved:
  assumes tx: "fst (txpackets cinfo) = 0 \<Longrightarrow>
                 txpacketrate cinfo = Finite 0 \<and> txbyterate cinfo = Finite 0"
    and rx: "fst (rxpackets cinfo) = 0 \<Longrightarrow>
                 rxpacketrate cinfo = Finite 0 \<and> rxbyterate cinfo = Finite 0"
    and moved: "now = 0 \<or> now' \<noteq> now"
  shows "txpacketrate (CalcStats_cinfo R' rp' now' (CalcStats_cinfo R rp now cinfo)) = Finite 0"
    and "txbyterate (CalcStats_cinfo R' rp' now' (CalcStats_cinfo R rp now cinfo)) = Finite 0"
    and "rxpacketrate (CalcStats_cinfo R' rp' now' (CalcStats_cinfo R rp now cinfo)) = Finite 0"
    and "rxbyterate (CalcStats_cinfo R' rp' now' (CalcStats_cinfo R rp now cinfo)) = Finite 0"
proof -
  have t: "txpacketrate (CalcStats_cinfo R' rp' now' (CalcStats_cinfo R rp now cinfo)) = Finite 0 \<and>
           txbyterate (CalcStats_cinfo R' rp' now' (CalcStats_cinfo R rp now cinfo)) = Finite 0"
  proof (cases "0 < fst (txpackets cinfo)")
    case True
    then show ?thesis
      using tx_rates_unchanged_counters
        [of cinfo "CalcStats_cinfo R rp now cinfo" R rp now now' R' rp'] moved
      by simp
  next
    case False
    then have z: "fst (txpackets cinfo) = 0" by (simp add: word_gt_0)
    then show ?thesis using tx [OF z] by (simp add: CalcStats_tx)
  qed
  have r: "rxpacketrate (CalcStats_cinfo R' rp' now' (CalcStats_cinfo R rp now cinfo)) = Finite 0 \<and>
           rxbyterate (CalcStats_cinfo R' rp' now' (CalcStats_cinfo R rp now cinfo)) = Finite 0"
  proof (cases "0 < fst (rxpackets cinfo)")
    case True
    then show ?thesis
      using rx_rates_unchanged_counters
        [of cinfo "CalcStats_cinfo R rp now cinfo" R rp now now' R' rp'] moved
      by simp
  next
    case False
    then have z: "fst (rxpackets cinfo) = 0" by (simp add: word_gt_0)
    then show ?thesis using rx [OF z] by (simp add: CalcStats_rx)
  qed
  show "txpacketrate (CalcStats_cinfo R' rp' now' (CalcStats_cinfo R rp now cinfo)) = Finite 0"
    and "txbyterate (CalcStats_cinfo R' rp' now' (CalcStats_cinfo R rp now cinfo)) = Finite 0"
    and "rxpacketrate (CalcStats_cinfo R' rp' now' (CalcStats_cinfo R rp now cinfo)) = Finite 0"
    and "rxbyterate (CalcStats_cinfo R' rp' now' (CalcStats_cinfo R rp now cinfo)) = Finite 0"
    using t r by simp_all
qed

lemma rate_examples:
  "d_div (d_of_int 10) (Finite 1) = Finite 10"
  "d_div (d_of_int 5120) (Finite 1) = Finite 5120"
  "d_div (d_of_int 0) (d_div (d_of_int 0) (d_of_int NSTMODULUS)) = NaN"
  "d_div (d_of_int 0) (d_div (d_of_int 1000000000) (d_of_int NSTMODULUS)) = Finite 0"
  by (code_simp+)

lemma client_sent_ten_fields:
  "txpackets client_sent_ten = (10, 0)" "txbytes client_sent_ten = (5120, 0)"
  "rxpackets client_sent_ten = (0, 0)" "rxbytes client_sent_ten = (0, 0)"
  "ratetime client_sent_ten = 0"
  "txpacketrate client_sent_ten = Finite 0" "txbyterate client_sent_ten = Finite 0"
  "rxpacketrate client_sent_ten = Finite 0" "rxbyterate client_sent_ten = Finite 0"
  by (simp_all add: client_sent_ten_def new_ClientInfo_def)

text \<open>
  Claim C6. The specification has rates of exactly 0 after two consecutive calls of
  \<^verbatim>\<open>CalcStats\<close> between which no counter changed. The first call for a client that has
  sent 10 packets (5120 bytes) takes 1.0 second as the elapsed time (rates 10 and
  5120), rolls the counters into the history and stamps the rate time. \<^verbatim>\<open>CalcStats\<close>
  divides by the elapsed time without a test: when the second call reads the same value
  of the clock as the first, the elapsed time is 0.0, the program divides 0.0 by 0.0 and
  the rates it stores are not numbers. When the second call reads a later value, the
  rates are 0.
\<close>

theorem CalcStats_same_clock_reading:
  "txpackets client_sent_ten = (10, 0) \<and> txbytes client_sent_ten = (5120, 0) \<and>
   ratetime client_sent_ten = 0 \<and>
   txpacketrate (CalcStats_cinfo 1000 ring_plain 2000000000 client_sent_ten) = Finite 10 \<and>
   txbyterate (CalcStats_cinfo 1000 ring_plain 2000000000 client_sent_ten) = Finite 5120 \<and>
   txpackets (CalcStats_cinfo 1000 ring_plain 2000000000 client_sent_ten) = (10, 10) \<and>
   txbytes (CalcStats_cinfo 1000 ring_plain 2000000000 client_sent_ten) = (5120, 5120) \<and>
   ratetime (CalcStats_cinfo 1000 ring_plain 2000000000 client_sent_ten) = 2000000000 \<and>
   txpacketrate (CalcStats_cinfo 1000 ring_plain 2000000000
      (CalcStats_cinfo 1000 ring_plain 2000000000 client_sent_ten)) = NaN \<and>
   txbyterate (CalcStats_cinfo 1000 ring_plain 2000000000
      (CalcStats_cinfo 1000 ring_plain 2000000000 client_sent_ten)) = NaN \<and>
   txpacketrate (CalcStats_cinfo 1000 ring_plain 3000000000
      (CalcStats_cinfo 1000 ring_plain 2000000000 client_sent_ten)) = Finite 0 \<and>
   txbyterate (CalcStats_cinfo 1000 ring_plain 3000000000
      (CalcStats_cinfo 1000 ring_plain 2000000000 client_sent_ten)) = Finite 0"
proof -
  have w: "uint (10 :: 64 word) = 10" "uint (5120 :: 64 word) = 5120" "(0 :: 64 word) < 10"
    by simp_all
  show ?thesis
    by (simp add: CalcStats_tx CalcStats_ratetime client_sent_ten_fields w rate_examples)
qed

end
